theory Spec2Isabelle
  imports Main "HOL-Library.Word" "HOL-Library.Sublist"
begin

section \<open>Android DNS-SD bridge (src/platform/android/DnssdImpl.cpp)\<close>

text \<open>
  A C string is modelled by the list of its characters before the terminating NUL, a
  \<open>std::string\<close> by the list of its characters. Sizes and offsets (\<open>size_t\<close>) are natural
  numbers: every offset computed below is bounded by the length of a string in memory.
\<close>

subsection \<open>Status codes and protocols\<close>

datatype CHIP_ERROR =
    CHIP_NO_ERROR
  | CHIP_ERROR_INVALID_ARGUMENT
  | CHIP_ERROR_INCORRECT_STATE
  | CHIP_ERROR_NO_MEMORY
  | CHIP_ERROR_UNKNOWN_RESOURCE_ID
  | CHIP_ERROR_NOT_IMPLEMENTED
  | CHIP_JNI_ERROR_EXCEPTION_THROWN
  | CHIP_JNI_ERROR_NO_ENV

datatype DnssdServiceProtocol =
    kDnssdProtocolUdp
  | kDnssdProtocolTcp
  | kDnssdProtocolUnknown

definition kProtocolTcp :: string where
  "kProtocolTcp = ''._tcp''"

definition kProtocolUdp :: string where
  "kProtocolUdp = ''._udp''"

subsection \<open>String primitives of the C and C++ libraries\<close>

text \<open>
  \<open>first_occurrence s pat\<close> is the offset of the first place where \<open>pat\<close> occurs in \<open>s\<close>.
  Both \<open>std::string::find\<close> (\<open>None\<close> is \<open>npos\<close>) and \<open>strstr\<close> (\<open>None\<close> is the null
  pointer) search this way.
\<close>

fun first_occurrence :: "string \<Rightarrow> string \<Rightarrow> nat option" where
  "first_occurrence [] pat = (if pat = [] then Some 0 else None)"
| "first_occurrence (c # cs) pat =
     (if prefix pat (c # cs) then Some 0 else map_option Suc (first_occurrence cs pat))"

definition string_find :: "string \<Rightarrow> string \<Rightarrow> nat option" where
  "string_find s pat = first_occurrence s pat"

definition strstr :: "string \<Rightarrow> string \<Rightarrow> nat option" where
  "strstr haystack needle = first_occurrence haystack needle"

text \<open>
  \<open>substr_from s pos\<close> is \<open>s.substr(pos)\<close> and \<open>substr s pos n\<close> is \<open>s.substr(pos, n)\<close>.
  The library throws when \<open>pos\<close> exceeds the size of \<open>s\<close>; the only caller passes offsets
  that \<open>find\<close> returned, which lemma \<open>first_occurrence_bound\<close> shows to be in range.
\<close>

definition substr_from :: "string \<Rightarrow> nat \<Rightarrow> string" where
  "substr_from s pos = drop pos s"

definition substr :: "string \<Rightarrow> nat \<Rightarrow> nat \<Rightarrow> string" where
  "substr s pos n = take n (drop pos s)"

text \<open>
  \<open>strrchr s c\<close> is the offset of the last occurrence of \<open>c\<close> in \<open>s\<close>; the terminating NUL
  counts as part of the string, so searching for NUL finds the end.
\<close>

fun strrchr :: "string \<Rightarrow> char \<Rightarrow> nat option" where
  "strrchr [] c = (if c = CHR 0x00 then Some 0 else None)"
| "strrchr (x # xs) c =
     (case strrchr xs c of
        Some i \<Rightarrow> Some (Suc i)
      | None \<Rightarrow> if x = c then Some 0 else None)"

subsection \<open>Service-type codec\<close>

definition GetFullType :: "string \<Rightarrow> DnssdServiceProtocol \<Rightarrow> string" where
  "GetFullType type protocol =
     type @ (if protocol = kDnssdProtocolUdp then kProtocolUdp else kProtocolTcp)"

definition GetFullTypeWithSubTypes :: "string \<Rightarrow> DnssdServiceProtocol \<Rightarrow> string" where
  "GetFullTypeWithSubTypes type protocol =
     (let fullType = GetFullType type protocol;
          subtypeDelimiter = ''._sub.''
      in case string_find fullType subtypeDelimiter of
           Some position \<Rightarrow>
             substr_from fullType (position + length subtypeDelimiter) @ '','' @
             substr fullType 0 position
         | None \<Rightarrow> fullType)"

text \<open>
  \<open>extractProtocol N serviceType (outServiceName, outProtocol)\<close>: \<open>N\<close> is the size of the
  output array \<open>outServiceName\<close> (a template parameter in the source). The two output
  parameters are passed in and returned with the status, because the source writes them
  before its last checks: a failing call may leave them changed.
\<close>

definition extractProtocol ::
  "nat \<Rightarrow> string \<Rightarrow> string \<times> DnssdServiceProtocol \<Rightarrow>
   CHIP_ERROR \<times> string \<times> DnssdServiceProtocol" where
  "extractProtocol N serviceType out =
     (case strrchr serviceType CHR ''.'' of
        None \<Rightarrow> (CHIP_ERROR_INVALID_ARGUMENT, out)
      | Some lengthWithoutProtocol \<Rightarrow>
          if \<not> lengthWithoutProtocol + 1 \<le> N then (CHIP_ERROR_INVALID_ARGUMENT, out)
          else
            let outServiceName = take lengthWithoutProtocol serviceType;
                dotPos = drop lengthWithoutProtocol serviceType;
                verified = (\<lambda>outProtocol.
                  if outProtocol = kDnssdProtocolUnknown
                  then (CHIP_ERROR_INVALID_ARGUMENT, outServiceName, outProtocol)
                  else (CHIP_NO_ERROR, outServiceName, outProtocol))
            in if strstr dotPos ''._tcp'' \<noteq> None then verified kDnssdProtocolTcp
               else if strstr dotPos ''._udp'' \<noteq> None then verified kDnssdProtocolUdp
               else (CHIP_ERROR_INVALID_ARGUMENT, outServiceName, kDnssdProtocolUnknown))"

subsection \<open>Data model\<close>

text \<open>
  Handles that cross the JNI boundary are \<open>jlong\<close> values; 0 is the null pointer.
  A heap address is a natural number, and a pointer is \<open>None\<close> (the null pointer) or an
  address together with the content of the block it points to. The blocks of this file
  are written once, when they are created, so the content can travel with the pointer;
  what the heap itself contributes (which blocks were obtained and which were given back)
  is recorded in the event trace below.
\<close>

type_synonym handle = "64 word"
type_synonym addr = nat
type_synonym 'a ptr = "(addr \<times> 'a) option"
type_synonym IPAddress = "128 word"
type_synonym InterfaceId = nat

record TextEntry =
  mKey :: "string ptr"
  mData :: "8 word list ptr"
  mDataSize :: nat

record DnssdService =
  mName :: string
  mHostName :: string
  mType :: string
  mProtocol :: DnssdServiceProtocol
  mPort :: "16 word"
  mInterface :: InterfaceId
  mTextEntries :: "TextEntry list ptr"
  mTextEntrySize :: nat

text \<open>
  The constants and array sizes of \<open>lib/dnssd\<close>, the address parser of \<open>inet\<close> and the
  string copy of \<open>lib/support\<close> are declared outside this file; they are parameters of the
  model. \<open>CopyString P n src\<close> is the content of an array of \<open>n\<close> characters after
  \<open>CopyString(array, src)\<close>.
\<close>

record platform =
  kInstanceNameMaxLength :: nat
  kDnssdTypeAndProtocolMaxSize :: nat
  sizeof_mName :: nat
  sizeof_mHostName :: nat
  sizeof_mType :: nat
  FromString :: "string \<Rightarrow> (IPAddress \<times> InterfaceId) option"
  CopyString :: "nat \<Rightarrow> string \<Rightarrow> string"

text \<open>
  The TXT map of a resolve result, as the callback object's two accessors show it: the
  keys in order, and for a key its bytes or null. A byte is its bit pattern, which the
  cast from \<open>jbyte\<close> to \<open>uint8_t\<close> keeps.
\<close>

record text_map =
  getTextEntryKeys :: "string list"
  getTextEntryData :: "string \<Rightarrow> 8 word list option"

text \<open>The references and method ids that \<open>InitializeWithObjects\<close> binds.\<close>

record jni_globals =
  sResolverObject :: bool
  sBrowserObject :: bool
  sMdnsCallbackObject :: bool
  sResolveMethod :: bool
  sBrowseMethod :: bool
  sStopBrowseMethod :: bool
  sPublishMethod :: bool
  sRemoveServicesMethod :: bool

subsection \<open>Events and the world\<close>

datatype alloc_kind = EntryList | KeyBuffer | DataBuffer | ServiceArray | BrowseContextObject

datatype backend_call =
    BackendBrowse string handle handle
  | BackendStopBrowse handle
  | BackendResolve string string handle handle
  | BackendRemoveServices

text \<open>
  \<open>EvBackendCall c locked\<close> records a call into the Java backend and whether the stack
  lock was held when it was made. The two callback events carry what the callback
  receives: context, service pointer, addresses or count, and the status.
\<close>

datatype event =
    EvAlloc alloc_kind addr
  | EvAllocFailed alloc_kind
  | EvFree addr
  | EvLock
  | EvUnlock
  | EvBackendCall backend_call bool
  | EvResolveCallback handle handle "DnssdService option" "IPAddress list" CHIP_ERROR
  | EvBrowseCallback handle handle "DnssdService list option" nat bool CHIP_ERROR

text \<open>
  \<open>alloc_ok\<close> scripts the allocator: its entries answer the coming requests that can
  fail, in order (\<open>False\<close>: the request returns null); requests beyond the script succeed.
  \<open>sessions\<close> holds the live \<open>BrowseContext\<close> objects with the callback each stores.
\<close>

record world =
  next_addr :: addr
  alloc_ok :: "bool list"
  stack_locked :: bool
  sessions :: "addr \<rightharpoonup> handle"
  trace :: "event list"

definition emit :: "event \<Rightarrow> world \<Rightarrow> world" where
  "emit e w = w\<lparr>trace := trace w @ [e]\<rparr>"

definition nothrow_new :: "alloc_kind \<Rightarrow> world \<Rightarrow> addr option \<times> world" where
  "nothrow_new k w =
     (case alloc_ok w of
        False # rest \<Rightarrow> (None, emit (EvAllocFailed k) (w\<lparr>alloc_ok := rest\<rparr>))
      | _ \<Rightarrow>
          (Some (next_addr w),
           emit (EvAlloc k (next_addr w))
             (w\<lparr>next_addr := Suc (next_addr w), alloc_ok := tl (alloc_ok w)\<rparr>)))"

text \<open>Plain \<open>new\<close> does not return null.\<close>

definition plain_new :: "alloc_kind \<Rightarrow> world \<Rightarrow> addr \<times> world" where
  "plain_new k w =
     (next_addr w, emit (EvAlloc k (next_addr w)) (w\<lparr>next_addr := Suc (next_addr w)\<rparr>))"

definition delete :: "addr \<Rightarrow> world \<Rightarrow> world" where
  "delete a w = emit (EvFree a) w"

text \<open>\<open>delete[] p\<close> on a pointer: nothing happens for the null pointer.\<close>

definition delete_ptr :: "'a ptr \<Rightarrow> world \<Rightarrow> world" where
  "delete_ptr p w = (case p of None \<Rightarrow> w | Some (a, _) \<Rightarrow> delete a w)"

text \<open>\<open>strdup\<close> returns the null pointer when it cannot allocate the copy.\<close>

definition strdup :: "string \<Rightarrow> world \<Rightarrow> string ptr \<times> world" where
  "strdup s w = (case nothrow_new KeyBuffer w of (a, w') \<Rightarrow> (map_option (\<lambda>a. (a, s)) a, w'))"

text \<open>
  Modelled from the spec: the scoped helpers \<open>DeviceLayer::StackLock\<close> and
  \<open>DeviceLayer::StackUnlock\<close>, declared outside this file. The first acquires the stack
  lock and releases it when its scope ends; the second is the scoped-release helper that
  gives the lock up around a backend call and takes it again when its scope ends.
\<close>

definition LockChipStack :: "world \<Rightarrow> world" where
  "LockChipStack w = emit EvLock (w\<lparr>stack_locked := True\<rparr>)"

definition UnlockChipStack :: "world \<Rightarrow> world" where
  "UnlockChipStack w = emit EvUnlock (w\<lparr>stack_locked := False\<rparr>)"

definition backend :: "backend_call \<Rightarrow> world \<Rightarrow> world" where
  "backend c w = emit (EvBackendCall c (stack_locked w)) w"

definition CanCastTo_uint16 :: "32 word \<Rightarrow> bool" where
  "CanCastTo_uint16 port = (0 \<le> sint port \<and> sint port \<le> 65535)"

text \<open>
  \<open>DnssdService service = {}\<close>: every field zero (\<open>kDnssdProtocolUdp\<close> is the enumerator
  with value 0). The record is not handed to anyone before its type and protocol have been
  written.
\<close>

definition zero_service :: DnssdService where
  "zero_service =
     \<lparr>mName = [], mHostName = [], mType = [], mProtocol = kDnssdProtocolUdp, mPort = 0,
      mInterface = 0, mTextEntries = None, mTextEntrySize = 0\<rparr>"

definition zero_entry :: TextEntry where
  "zero_entry = \<lparr>mKey = None, mData = None, mDataSize = 0\<rparr>"

subsection \<open>HandleResolve\<close>

text \<open>
  The arguments of \<open>HandleResolve\<close>. The source reads \<open>instanceName\<close>, \<open>serviceType\<close> and
  \<open>hostName\<close> without a null check, so they are strings here; \<open>address\<close> and \<open>textEntries\<close>
  may be null. \<open>port\<close> is a \<open>jint\<close>.
\<close>

record resolve_result =
  instanceName :: string
  serviceType :: string
  hostName :: string
  address :: "string option"
  port :: "32 word"
  textEntries :: "text_map option"
  callbackHandle :: handle
  contextHandle :: handle

text \<open>The \<open>dispatch\<close> lambda of \<open>HandleResolve\<close>.\<close>

definition resolve_dispatch ::
  "handle \<Rightarrow> handle \<Rightarrow> CHIP_ERROR \<Rightarrow> DnssdService option \<Rightarrow> IPAddress option \<Rightarrow>
   world \<Rightarrow> world" where
  "resolve_dispatch callback context error service addr w =
     (let w = LockChipStack w;
          w = emit (EvResolveCallback callback context service
                      (case addr of None \<Rightarrow> [] | Some a \<Rightarrow> [a]) error) w
      in UnlockChipStack w)"

text \<open>\<open>entries[i]\<close> is the array that \<open>service.mTextEntries\<close> points to.\<close>

definition set_entry :: "nat \<Rightarrow> (TextEntry \<Rightarrow> TextEntry) \<Rightarrow> DnssdService \<Rightarrow> DnssdService" where
  "set_entry i f service =
     service\<lparr>mTextEntries :=
       map_option (\<lambda>(a, es). (a, es[i := f (es ! i)])) (mTextEntries service)\<rparr>"

text \<open>
  One round of the loop over the keys, for \<open>entries[i]\<close> and its key. The flag is \<open>False\<close>
  when the round leaves the loop at \<open>VerifyOrExit\<close> because the data allocation failed.
\<close>

definition fill_entry ::
  "text_map \<Rightarrow> nat \<Rightarrow> string \<Rightarrow> DnssdService \<Rightarrow> world \<Rightarrow> bool \<times> DnssdService \<times> world" where
  "fill_entry txt i key service w =
     (case strdup key w of
        (k, w) \<Rightarrow>
          let service = set_entry i (\<lambda>e. e\<lparr>mKey := k\<rparr>) service
          in case getTextEntryData txt key of
               Some datas \<Rightarrow>
                 (case nothrow_new DataBuffer w of
                    (None, w) \<Rightarrow> (False, service, w)
                  | (Some data, w) \<Rightarrow>
                      (True,
                       set_entry i
                         (\<lambda>e. e\<lparr>mDataSize := length datas, mData := Some (data, datas)\<rparr>)
                         service,
                       w))
             | None \<Rightarrow>
                 (True, set_entry i (\<lambda>e. e\<lparr>mDataSize := 0, mData := None\<rparr>) service, w))"

text \<open>
  The loop, from index \<open>i\<close> on; \<open>service.mTextEntrySize\<close> is assigned at the end of each
  round that was not left early.
\<close>

fun fill_entries ::
  "text_map \<Rightarrow> nat \<Rightarrow> nat \<Rightarrow> string list \<Rightarrow> DnssdService \<Rightarrow> world \<Rightarrow>
   DnssdService \<times> world" where
  "fill_entries txt sz i [] service w = (service, w)"
| "fill_entries txt sz i (key # keys) service w =
     (case fill_entry txt i key service w of
        (False, service, w) \<Rightarrow> (service, w)
      | (True, service, w) \<Rightarrow>
          fill_entries txt sz (Suc i) keys (service\<lparr>mTextEntrySize := sz\<rparr>) w)"

definition build_text_entries :: "text_map \<Rightarrow> DnssdService \<Rightarrow> world \<Rightarrow> DnssdService \<times> world" where
  "build_text_entries txt service w =
     (let keys = getTextEntryKeys txt;
          sz = length keys
      in case nothrow_new EntryList w of
           (None, w) \<Rightarrow> (service, w)
         | (Some entries, w) \<Rightarrow>
             fill_entries txt sz 0 keys
               (service\<lparr>mTextEntries := Some (entries, replicate sz zero_entry)\<rparr>) w)"

text \<open>The exit section: the first \<open>mTextEntrySize\<close> entries, then the list.\<close>

fun release_entries :: "TextEntry list \<Rightarrow> world \<Rightarrow> world" where
  "release_entries [] w = w"
| "release_entries (e # es) w = release_entries es (delete_ptr (mData e) (delete_ptr (mKey e) w))"

definition release_text_entries :: "DnssdService \<Rightarrow> world \<Rightarrow> world" where
  "release_text_entries service w =
     (case mTextEntries service of
        None \<Rightarrow> w
      | Some (entries, es) \<Rightarrow>
          delete entries (release_entries (take (mTextEntrySize service) es) w))"

definition HandleResolve :: "platform \<Rightarrow> resolve_result \<Rightarrow> world \<Rightarrow> world" where
  "HandleResolve P r w =
     (if callbackHandle r = 0 then w
      else
        let dispatch = resolve_dispatch (callbackHandle r) (contextHandle r)
        in case address r of
             None \<Rightarrow> dispatch CHIP_ERROR_UNKNOWN_RESOURCE_ID None None w
           | Some jniAddress \<Rightarrow>
               if port r = 0 then dispatch CHIP_ERROR_UNKNOWN_RESOURCE_ID None None w
               else if \<not> length (instanceName r) \<le> kInstanceNameMaxLength P
               then dispatch CHIP_ERROR_INVALID_ARGUMENT None None w
               else if \<not> length (serviceType r) \<le> kDnssdTypeAndProtocolMaxSize P
               then dispatch CHIP_ERROR_INVALID_ARGUMENT None None w
               else if \<not> CanCastTo_uint16 (port r)
               then dispatch CHIP_ERROR_INVALID_ARGUMENT None None w
               else
                 case FromString P jniAddress of
                   None \<Rightarrow> dispatch CHIP_ERROR_INVALID_ARGUMENT None None w
                 | Some (ipAddress, iface) \<Rightarrow>
                     let service = zero_service
                           \<lparr>mName := CopyString P (sizeof_mName P) (instanceName r),
                            mHostName := CopyString P (sizeof_mHostName P) (hostName r)\<rparr>
                     in case extractProtocol (sizeof_mType P) (serviceType r)
                               (mType service, mProtocol service) of
                          (err, outServiceName, outProtocol) \<Rightarrow>
                            if err \<noteq> CHIP_NO_ERROR
                            then dispatch CHIP_ERROR_INVALID_ARGUMENT None None w
                            else
                              let service = service
                                    \<lparr>mType := outServiceName, mProtocol := outProtocol,
                                     mPort := ucast (port r), mInterface := iface,
                                     mTextEntrySize := 0, mTextEntries := None\<rparr>
                              in case (case textEntries r of
                                         None \<Rightarrow> (service, w)
                                       | Some txt \<Rightarrow> build_text_entries txt service w) of
                                   (service, w) \<Rightarrow>
                                     release_text_entries service
                                       (dispatch CHIP_NO_ERROR (Some service) (Some ipAddress) w))"

subsection \<open>HandleBrowse\<close>

text \<open>The \<open>dispatch\<close> lambda of \<open>HandleBrowse\<close>; the callback's \<open>finalBrowse\<close> flag is true.\<close>

definition browse_dispatch ::
  "handle \<Rightarrow> handle \<Rightarrow> CHIP_ERROR \<Rightarrow> DnssdService list option \<Rightarrow> nat \<Rightarrow> world \<Rightarrow> world" where
  "browse_dispatch callback context error service sz w =
     (let w = LockChipStack w;
          w = emit (EvBrowseCallback callback context service sz True error) w
      in UnlockChipStack w)"

text \<open>
  The loop over the instance names, from index \<open>i\<close> on; \<open>None\<close> when a check fails, where
  the source dispatches \<open>CHIP_ERROR_INVALID_ARGUMENT\<close> and returns.
\<close>

fun browse_entries ::
  "platform \<Rightarrow> string \<Rightarrow> nat \<Rightarrow> string list \<Rightarrow> DnssdService list \<Rightarrow> DnssdService list option" where
  "browse_entries P jniServiceType i [] service = Some service"
| "browse_entries P jniServiceType i (jniInstanceName # names) service =
     (if \<not> length jniInstanceName \<le> kInstanceNameMaxLength P then None
      else
        let s = (service ! i)\<lparr>mName := CopyString P (sizeof_mName P) jniInstanceName\<rparr>
        in case extractProtocol (sizeof_mType P) jniServiceType (mType s, mProtocol s) of
             (err, outServiceName, outProtocol) \<Rightarrow>
               if err \<noteq> CHIP_NO_ERROR then None
               else browse_entries P jniServiceType (Suc i) names
                      (service[i := s\<lparr>mType := outServiceName, mProtocol := outProtocol\<rparr>]))"

text \<open>
  \<open>new DnssdService[size]\<close> leaves the elements uninitialised: \<open>uninit i\<close> stands for
  whatever element \<open>i\<close> holds before the loop writes it.
\<close>

definition HandleBrowse ::
  "platform \<Rightarrow> (nat \<Rightarrow> DnssdService) \<Rightarrow> string list \<Rightarrow> string \<Rightarrow> handle \<Rightarrow> handle \<Rightarrow>
   world \<Rightarrow> world" where
  "HandleBrowse P uninit instanceNames jniServiceType callback context w =
     (if callback = 0 then w
      else
        let dispatch = browse_dispatch callback context;
            sz = length instanceNames
        in case plain_new ServiceArray w of
             (service, w) \<Rightarrow>
               (case browse_entries P jniServiceType 0 instanceNames (map uninit [0..<sz]) of
                  None \<Rightarrow> dispatch CHIP_ERROR_INVALID_ARGUMENT None 0 w
                | Some services \<Rightarrow>
                    delete service (dispatch CHIP_NO_ERROR (Some services) sz w)))"

subsection \<open>Synchronous operations\<close>

text \<open>
  Each operation takes the bound globals and the world. \<open>env\<close> says whether
  \<open>GetEnvForCurrentThread\<close> returns an environment (only the operations that check it
  take it), and \<open>throws\<close> whether a Java exception is pending after the backend call.
  The address type and the interface of \<open>ChipDnssdBrowse\<close> and the interface of
  \<open>ChipDnssdResolve\<close> are not used by the bodies and are left out. The caller of an
  operation holds the stack lock: \<open>stack_locked\<close> is true in the world it passes.
\<close>

definition ChipDnssdRemoveServices :: "jni_globals \<Rightarrow> bool \<Rightarrow> world \<Rightarrow> CHIP_ERROR \<times> world" where
  "ChipDnssdRemoveServices g throws w =
     (if \<not> (sResolverObject g \<and> sRemoveServicesMethod g) then (CHIP_ERROR_INCORRECT_STATE, w)
      else
        let w = UnlockChipStack w;
            w = backend BackendRemoveServices w;
            w = LockChipStack w
        in if throws then (CHIP_JNI_ERROR_EXCEPTION_THROWN, w) else (CHIP_NO_ERROR, w))"

definition ChipDnssdResolve ::
  "jni_globals \<Rightarrow> DnssdService option \<Rightarrow> handle \<Rightarrow> handle \<Rightarrow> bool \<Rightarrow> world \<Rightarrow>
   CHIP_ERROR \<times> world" where
  "ChipDnssdResolve g service callback context throws w =
     (case service of
        None \<Rightarrow> (CHIP_ERROR_INVALID_ARGUMENT, w)
      | Some svc \<Rightarrow>
          if callback = 0 then (CHIP_ERROR_INVALID_ARGUMENT, w)
          else if \<not> (sResolverObject g \<and> sResolveMethod g) then (CHIP_ERROR_INCORRECT_STATE, w)
          else if \<not> sMdnsCallbackObject g then (CHIP_ERROR_INCORRECT_STATE, w)
          else
            let serviceType = GetFullType (mType svc) (mProtocol svc);
                w = UnlockChipStack w;
                w = backend (BackendResolve (mName svc) serviceType callback context) w;
                w = LockChipStack w
            in if throws then (CHIP_JNI_ERROR_EXCEPTION_THROWN, w) else (CHIP_NO_ERROR, w))"

text \<open>
  \<open>ChipDnssdBrowse\<close> returns the status and the value written through \<open>browseIdentifier\<close>,
  if any: the address of the new \<open>BrowseContext\<close>.
\<close>

definition ChipDnssdBrowse ::
  "jni_globals \<Rightarrow> string option \<Rightarrow> DnssdServiceProtocol \<Rightarrow> handle \<Rightarrow> handle \<Rightarrow> bool \<Rightarrow> bool \<Rightarrow>
   world \<Rightarrow> CHIP_ERROR \<times> addr option \<times> world" where
  "ChipDnssdBrowse g type protocol callback context env throws w =
     (case type of
        None \<Rightarrow> (CHIP_ERROR_INVALID_ARGUMENT, None, w)
      | Some ty \<Rightarrow>
          if callback = 0 then (CHIP_ERROR_INVALID_ARGUMENT, None, w)
          else if \<not> (sBrowserObject g \<and> sBrowseMethod g) then (CHIP_ERROR_INVALID_ARGUMENT, None, w)
          else if \<not> sMdnsCallbackObject g then (CHIP_ERROR_INCORRECT_STATE, None, w)
          else
            let serviceType = GetFullTypeWithSubTypes ty protocol
            in if \<not> env then (CHIP_JNI_ERROR_NO_ENV, None, w)
               else
                 let w = backend (BackendBrowse serviceType callback context) w
                 in if throws then (CHIP_JNI_ERROR_EXCEPTION_THROWN, None, w)
                    else
                      case nothrow_new BrowseContextObject w of
                        (None, w) \<Rightarrow> (CHIP_ERROR_NO_MEMORY, None, w)
                      | (Some sdCtx, w) \<Rightarrow>
                          (CHIP_NO_ERROR, Some sdCtx,
                           w\<lparr>sessions := (sessions w)(sdCtx \<mapsto> callback)\<rparr>))"

text \<open>
  \<open>ChipDnssdStopBrowse\<close> reads \<open>ctx->callback\<close> through the identifier. For an identifier
  that is not a live \<open>BrowseContext\<close> the read is undefined in C++; the model returns
  \<open>None\<close> there.
\<close>

definition ChipDnssdStopBrowse ::
  "jni_globals \<Rightarrow> addr \<Rightarrow> bool \<Rightarrow> bool \<Rightarrow> world \<Rightarrow> (CHIP_ERROR \<times> world) option" where
  "ChipDnssdStopBrowse g browseIdentifier env throws w =
     (if browseIdentifier = 0 then Some (CHIP_ERROR_INVALID_ARGUMENT, w)
      else if \<not> (sBrowserObject g \<and> sStopBrowseMethod g) then Some (CHIP_ERROR_INVALID_ARGUMENT, w)
      else if \<not> env then Some (CHIP_JNI_ERROR_NO_ENV, w)
      else
        case sessions w browseIdentifier of
          None \<Rightarrow> None
        | Some ctx_callback \<Rightarrow>
            let w = backend (BackendStopBrowse ctx_callback) w;
                w = delete browseIdentifier (w\<lparr>sessions := (sessions w)(browseIdentifier := None)\<rparr>)
            in if throws then Some (CHIP_JNI_ERROR_EXCEPTION_THROWN, w)
               else Some (CHIP_NO_ERROR, w))"

subsection \<open>Reading a trace\<close>

definition new_events :: "world \<Rightarrow> world \<Rightarrow> event list" where
  "new_events w w' = drop (length (trace w)) (trace w')"

fun is_callback :: "event \<Rightarrow> bool" where
  "is_callback (EvResolveCallback _ _ _ _ _) = True"
| "is_callback (EvBrowseCallback _ _ _ _ _ _) = True"
| "is_callback _ = False"

definition callbacks :: "event list \<Rightarrow> event list" where
  "callbacks evs = filter is_callback evs"

fun allocs :: "event list \<Rightarrow> (alloc_kind \<times> addr) list" where
  "allocs [] = []"
| "allocs (EvAlloc k a # evs) = (k, a) # allocs evs"
| "allocs (_ # evs) = allocs evs"

fun frees :: "event list \<Rightarrow> addr list" where
  "frees [] = []"
| "frees (EvFree a # evs) = a # frees evs"
| "frees (_ # evs) = frees evs"

fun failed_allocs :: "event list \<Rightarrow> alloc_kind list" where
  "failed_allocs [] = []"
| "failed_allocs (EvAllocFailed k # evs) = k # failed_allocs evs"
| "failed_allocs (_ # evs) = failed_allocs evs"

fun backend_calls :: "event list \<Rightarrow> (backend_call \<times> bool) list" where
  "backend_calls [] = []"
| "backend_calls (EvBackendCall c locked # evs) = (c, locked) # backend_calls evs"
| "backend_calls (_ # evs) = backend_calls evs"

definition before_callback :: "event list \<Rightarrow> event list" where
  "before_callback evs = takeWhile (\<lambda>e. \<not> is_callback e) evs"

definition after_callback :: "event list \<Rightarrow> event list" where
  "after_callback evs = drop 1 (dropWhile (\<lambda>e. \<not> is_callback e) evs)"

text \<open>The TXT entries a callback can read from a record: the first \<open>mTextEntrySize\<close>.\<close>

definition visible_text_entries :: "DnssdService \<Rightarrow> TextEntry list" where
  "visible_text_entries service =
     (case mTextEntries service of
        None \<Rightarrow> []
      | Some (_, es) \<Rightarrow> take (mTextEntrySize service) es)"

text \<open>The resolve results that pass every check of \<open>HandleResolve\<close> before the TXT map.\<close>

definition resolve_valid :: "platform \<Rightarrow> resolve_result \<Rightarrow> bool" where
  "resolve_valid P r =
     (callbackHandle r \<noteq> 0 \<and> port r \<noteq> 0 \<and>
      length (instanceName r) \<le> kInstanceNameMaxLength P \<and>
      length (serviceType r) \<le> kDnssdTypeAndProtocolMaxSize P \<and>
      CanCastTo_uint16 (port r) \<and>
      (case address r of None \<Rightarrow> False | Some a \<Rightarrow> FromString P a \<noteq> None) \<and>
      fst (extractProtocol (sizeof_mType P) (serviceType r) ([], kDnssdProtocolUdp)) =
        CHIP_NO_ERROR)"

subsection \<open>Example inputs\<close>

definition example_platform :: platform where
  "example_platform =
     \<lparr>kInstanceNameMaxLength = 33, kDnssdTypeAndProtocolMaxSize = 21, sizeof_mName = 34,
      sizeof_mHostName = 17, sizeof_mType = 16,
      FromString = (\<lambda>s. if s = ''fe80::1'' then Some (1, 2) else None),
      CopyString = (\<lambda>n src. take (n - 1) src)\<rparr>"

definition example_world :: "bool list \<Rightarrow> world" where
  "example_world script =
     \<lparr>next_addr = 1, alloc_ok = script, stack_locked = False, sessions = Map.empty,
      trace = []\<rparr>"

definition example_text_map :: text_map where
  "example_text_map =
     \<lparr>getTextEntryKeys = [''D'', ''T'', ''CM''],
      getTextEntryData = map_of [(''D'', [0x38, 0x34, 0x30]), (''CM'', [0x32])]\<rparr>"

definition example_result :: resolve_result where
  "example_result =
     \<lparr>instanceName = ''1A2B3C4D5E6F7788'', serviceType = ''_matterc._udp'',
      hostName = ''AABBCCDDEEFF'', address = Some ''fe80::1'', port = 5540,
      textEntries = Some example_text_map, callbackHandle = 7, contextHandle = 9\<rparr>"

definition example_full_text_map :: text_map where
  "example_full_text_map =
     \<lparr>getTextEntryKeys = [''D'', ''T'', ''CM''],
      getTextEntryData = map_of [(''D'', [0x38, 0x34, 0x30]), (''T'', [0x31]), (''CM'', [0x32])]\<rparr>"

definition example_full_result :: resolve_result where
  "example_full_result = example_result\<lparr>textEntries := Some example_full_text_map\<rparr>"

definition example_globals :: jni_globals where
  "example_globals =
     \<lparr>sResolverObject = True, sBrowserObject = True, sMdnsCallbackObject = True,
      sResolveMethod = True, sBrowseMethod = True, sStopBrowseMethod = True,
      sPublishMethod = True, sRemoveServicesMethod = True\<rparr>"

definition example_session_world :: world where
  "example_session_world =
     \<lparr>next_addr = 6, alloc_ok = [], stack_locked = True, sessions = [5 \<mapsto> 7], trace = []\<rparr>"

section \<open>Properties\<close>

subsection \<open>String primitives\<close>

lemma first_occurrence_bound:
  "first_occurrence s pat = Some p \<Longrightarrow> prefix pat (drop p s) \<and> p + length pat \<le> length s"
proof (induction s arbitrary: p)
  case Nil
  then show ?case by (simp split: if_splits)
next
  case (Cons c cs)
  show ?case
  proof (cases "prefix pat (c # cs)")
    case True
    with Cons.prems have "p = 0" by simp
    with True prefix_length_le [OF True] show ?thesis by simp
  next
    case False
    with Cons.prems obtain q where q: "first_occurrence cs pat = Some q" "p = Suc q"
      by auto
    with Cons.IH [OF q(1)] show ?thesis by simp
  qed
qed

lemma first_occurrence_None_iff:
  "first_occurrence s pat = None \<longleftrightarrow> \<not> sublist pat s"
proof (induction s)
  case Nil
  then show ?case by simp
next
  case (Cons c cs)
  then show ?case by (auto simp: sublist_Cons_right)
qed

lemma first_occurrence_at:
  "\<not> sublist pat (pre @ butlast pat) \<Longrightarrow>
   first_occurrence (pre @ pat @ post) pat = Some (length pre)"
proof (induction pre)
  case Nil
  show ?case
  proof (cases "pat @ post")
    case Nil
    then show ?thesis by simp
  next
    case (Cons a list)
    have "prefix pat (pat @ post)" by simp
    with Cons show ?thesis by simp
  qed
next
  case (Cons x pre)
  from Cons.prems have ne: "pat \<noteq> []" by auto
  have np: "\<not> prefix pat (x # pre @ pat @ post)"
  proof
    assume a: "prefix pat (x # pre @ pat @ post)"
    have b: "prefix (x # pre @ butlast pat) (x # pre @ pat @ post)"
      using ne by (metis append_butlast_last_id append.assoc prefixI append_Cons)
    have "length pat \<le> length (x # pre @ butlast pat)" using ne by simp
    with a b have "prefix pat (x # pre @ butlast pat)"
      by (rule prefix_length_prefix)
    then have "sublist pat ((x # pre) @ butlast pat)" by (simp add: prefix_imp_sublist)
    with Cons.prems show False by simp
  qed
  from Cons.prems have "\<not> sublist pat (pre @ butlast pat)"
    by (auto simp: sublist_Cons_right)
  from Cons.IH [OF this] np show ?case by simp
qed

lemma strrchr_None_iff:
  "c \<noteq> CHR 0x00 \<Longrightarrow> strrchr s c = None \<longleftrightarrow> c \<notin> set s"
  by (induction s) (auto split: option.splits)

lemma strrchr_Some:
  "c \<noteq> CHR 0x00 \<Longrightarrow> strrchr s c = Some i \<Longrightarrow>
   s = take i s @ c # drop (Suc i) s \<and> c \<notin> set (drop (Suc i) s) \<and> i < length s"
proof (induction s arbitrary: i)
  case Nil
  then show ?case by simp
next
  case (Cons x xs)
  show ?case
  proof (cases "strrchr xs c")
    case None
    with Cons.prems have "x = c" "i = 0" by (auto split: if_splits)
    moreover from None Cons.prems(1) have "c \<notin> set xs" by (simp add: strrchr_None_iff)
    ultimately show ?thesis by simp
  next
    case (Some j)
    with Cons.prems have "i = Suc j" by simp
    with Cons.IH [OF Cons.prems(1) Some] show ?thesis by simp
  qed
qed

lemma strrchr_append:
  "c \<noteq> CHR 0x00 \<Longrightarrow> c \<notin> set ys \<Longrightarrow> strrchr (xs @ c # ys) c = Some (length xs)"
proof (induction xs)
  case Nil
  then have "strrchr ys c = None" by (simp add: strrchr_None_iff)
  then show ?case by simp
next
  case (Cons x xs)
  then show ?case by simp
qed

lemma strstr_after_last_dot:
  assumes "CHR ''.'' \<notin> set rest"
  shows "strstr (CHR ''.'' # rest) (CHR ''.'' # pat) \<noteq> None \<longleftrightarrow> prefix pat rest"
proof -
  have "\<not> sublist (CHR ''.'' # pat) rest"
    using assms by (auto dest: set_mono_sublist)
  then have "first_occurrence rest (CHR ''.'' # pat) = None"
    by (simp add: first_occurrence_None_iff)
  then show ?thesis by (simp add: strstr_def)
qed

subsection \<open>The codec\<close>

lemma extractProtocol_after_dot:
  assumes "CHR ''.'' \<notin> set rest"
  shows "extractProtocol N (base @ CHR ''.'' # rest) out =
     (if \<not> length base + 1 \<le> N then (CHIP_ERROR_INVALID_ARGUMENT, out)
      else if prefix ''_tcp'' rest then (CHIP_NO_ERROR, base, kDnssdProtocolTcp)
      else if prefix ''_udp'' rest then (CHIP_NO_ERROR, base, kDnssdProtocolUdp)
      else (CHIP_ERROR_INVALID_ARGUMENT, base, kDnssdProtocolUnknown))"
proof -
  have i: "strrchr (base @ CHR ''.'' # rest) CHR ''.'' = Some (length base)"
    using assms by (simp add: strrchr_append)
  note t = strstr_after_last_dot [OF assms, of "''_tcp''"]
  note u = strstr_after_last_dot [OF assms, of "''_udp''"]
  show ?thesis
    unfolding extractProtocol_def i by (simp add: Let_def t u del: not_None_eq)
qed

text \<open>
  C2. Decoding an encoded full type gives back the type and the protocol: for the
  protocols tcp and udp, and a type that fits the output array with its terminator,
  \<open>extractProtocol\<close> applied to \<open>GetFullType type protocol\<close> succeeds and writes exactly
  \<open>type\<close> and \<open>protocol\<close>, whatever the output parameters held before.
\<close>

theorem extractProtocol_GetFullType_roundtrip:
  assumes "protocol = kDnssdProtocolTcp \<or> protocol = kDnssdProtocolUdp"
      and "length type + 1 \<le> N"
  shows "extractProtocol N (GetFullType type protocol) out = (CHIP_NO_ERROR, type, protocol)"
proof -
  obtain sfx where full: "GetFullType type protocol = type @ CHR ''.'' # sfx"
    and sfx: "sfx = ''_tcp'' \<and> protocol = kDnssdProtocolTcp \<or>
              sfx = ''_udp'' \<and> protocol = kDnssdProtocolUdp"
    using assms(1) by (auto simp: GetFullType_def kProtocolTcp_def kProtocolUdp_def)
  from sfx have nodot: "CHR ''.'' \<notin> set sfx" by auto
  have last_dot: "strrchr (type @ CHR ''.'' # sfx) CHR ''.'' = Some (length type)"
    using nodot by (simp add: strrchr_append)
  have tcp: "strstr (CHR ''.'' # sfx) ''._tcp'' \<noteq> None \<longleftrightarrow> prefix ''_tcp'' sfx"
    using nodot by (rule strstr_after_last_dot)
  have udp: "strstr (CHR ''.'' # sfx) ''._udp'' \<noteq> None \<longleftrightarrow> prefix ''_udp'' sfx"
    using nodot by (rule strstr_after_last_dot)
  from sfx show ?thesis
    unfolding extractProtocol_def full last_dot using assms(2) tcp udp
    by (auto simp: Let_def)
qed

theorem extractProtocol_GetFullType_roundtrip_witness:
  "(kDnssdProtocolUdp = kDnssdProtocolTcp \<or> kDnssdProtocolUdp = kDnssdProtocolUdp) \<and>
   length ''_matterc'' + 1 \<le> (16::nat) \<and>
   extractProtocol 16 (GetFullType ''_matterc'' kDnssdProtocolUdp) ('''', kDnssdProtocolUnknown) =
     (CHIP_NO_ERROR, ''_matterc'', kDnssdProtocolUdp)"
  using extractProtocol_GetFullType_roundtrip
    [of kDnssdProtocolUdp "''_matterc''" 16 "('''', kDnssdProtocolUnknown)"]
  by simp

text \<open>
  C3, as the claim states it, fails: the delimiter is searched in the full type, after
  the protocol suffix has been appended, and what follows the delimiter is moved to the
  front together with that suffix. For \<open>_matter._sub.foo\<close> and tcp the result is
  \<open>foo._tcp,_matter\<close>, not \<open>foo,_matter._tcp\<close>; and a type that ends in \<open>._sub\<close> contains
  no delimiter, yet is reordered, because the dot of the suffix completes one.
\<close>

theorem GetFullTypeWithSubTypes_example_counterexample:
  "GetFullTypeWithSubTypes ''_matter._sub.foo'' kDnssdProtocolTcp = ''foo._tcp,_matter'' \<and>
   GetFullTypeWithSubTypes ''_matter._sub.foo'' kDnssdProtocolTcp \<noteq> ''foo,_matter._tcp'' \<and>
   \<not> sublist ''._sub.'' ''_matter._sub'' \<and>
   GetFullTypeWithSubTypes ''_matter._sub'' kDnssdProtocolTcp = ''_tcp,_matter'' \<and>
   GetFullTypeWithSubTypes ''_matter._sub'' kDnssdProtocolTcp \<noteq>
     GetFullType ''_matter._sub'' kDnssdProtocolTcp"
  by (simp add: GetFullTypeWithSubTypes_def GetFullType_def kProtocolTcp_def string_find_def
      substr_from_def substr_def first_occurrence_None_iff [symmetric])

text \<open>
  C3, amended. The delimiter is searched in the full type, the type with its protocol
  suffix. When the full type is \<open>pre ._sub. rest\<close> and this is its first delimiter, the
  result is \<open>rest\<close> (which ends with the protocol suffix), a comma, then \<open>pre\<close>; this
  includes a type that ends in \<open>._sub\<close>, where the dot of the suffix completes the
  delimiter. When the full type contains no delimiter, the result is the full type. So
  \<open>_matter._sub.foo\<close> with tcp gives \<open>foo._tcp,_matter\<close>, \<open>_matter._sub\<close> with tcp gives
  \<open>_tcp,_matter\<close>, and \<open>_matter\<close> with tcp gives \<open>_matter._tcp\<close>.
\<close>

theorem GetFullTypeWithSubTypes_reorders:
  "(GetFullType type protocol = pre @ ''._sub.'' @ rest \<and>
    \<not> sublist ''._sub.'' (pre @ ''._sub'') \<longrightarrow>
      GetFullTypeWithSubTypes type protocol = rest @ '','' @ pre) \<and>
   (\<not> sublist ''._sub.'' (GetFullType type protocol) \<longrightarrow>
      GetFullTypeWithSubTypes type protocol = GetFullType type protocol) \<and>
   GetFullTypeWithSubTypes ''_matter._sub.foo'' kDnssdProtocolTcp = ''foo._tcp,_matter'' \<and>
   GetFullTypeWithSubTypes ''_matter._sub'' kDnssdProtocolTcp = ''_tcp,_matter'' \<and>
   GetFullTypeWithSubTypes ''_matter'' kDnssdProtocolTcp = ''_matter._tcp''"
proof (intro conjI impI)
  assume a: "GetFullType type protocol = pre @ ''._sub.'' @ rest \<and>
    \<not> sublist ''._sub.'' (pre @ ''._sub'')"
  then have full: "GetFullType type protocol = pre @ ''._sub.'' @ rest" by (rule conjunct1)
  from a have "\<not> sublist ''._sub.'' (pre @ butlast ''._sub.'')" by simp
  then have "first_occurrence (pre @ ''._sub.'' @ rest) ''._sub.'' = Some (length pre)"
    by (rule first_occurrence_at)
  then show "GetFullTypeWithSubTypes type protocol = rest @ '','' @ pre"
    unfolding GetFullTypeWithSubTypes_def full string_find_def
    by (simp add: substr_from_def substr_def)
next
  assume "\<not> sublist ''._sub.'' (GetFullType type protocol)"
  then have "first_occurrence (GetFullType type protocol) ''._sub.'' = None"
    by (simp add: first_occurrence_None_iff)
  then show "GetFullTypeWithSubTypes type protocol = GetFullType type protocol"
    by (simp add: GetFullTypeWithSubTypes_def string_find_def)
next
  show "GetFullTypeWithSubTypes ''_matter._sub.foo'' kDnssdProtocolTcp = ''foo._tcp,_matter''"
    by (simp add: GetFullTypeWithSubTypes_def GetFullType_def kProtocolTcp_def string_find_def
        substr_from_def substr_def)
next
  show "GetFullTypeWithSubTypes ''_matter._sub'' kDnssdProtocolTcp = ''_tcp,_matter''"
    by (simp add: GetFullTypeWithSubTypes_def GetFullType_def kProtocolTcp_def string_find_def
        substr_from_def substr_def)
next
  show "GetFullTypeWithSubTypes ''_matter'' kDnssdProtocolTcp = ''_matter._tcp''"
    by (simp add: GetFullTypeWithSubTypes_def GetFullType_def kProtocolTcp_def string_find_def
        substr_from_def substr_def)
qed

theorem GetFullTypeWithSubTypes_reorders_witness:
  "GetFullType ''_L840._sub'' kDnssdProtocolUdp = ''_L840'' @ ''._sub.'' @ ''_udp'' \<and>
   \<not> sublist ''._sub.'' (''_L840'' @ ''._sub'') \<and>
   GetFullTypeWithSubTypes ''_L840._sub'' kDnssdProtocolUdp = ''_udp,_L840'' \<and>
   GetFullType ''_L840._sub._matterc'' kDnssdProtocolUdp =
     ''_L840'' @ ''._sub.'' @ ''_matterc._udp'' \<and>
   GetFullTypeWithSubTypes ''_L840._sub._matterc'' kDnssdProtocolUdp = ''_matterc._udp,_L840'' \<and>
   \<not> sublist ''._sub.'' (GetFullType ''_matterc'' kDnssdProtocolUdp) \<and>
   GetFullTypeWithSubTypes ''_matterc'' kDnssdProtocolUdp = ''_matterc._udp''"
proof -
  have a: "\<not> sublist ''._sub.'' (''_L840'' @ ''._sub'')"
    by (simp add: first_occurrence_None_iff [symmetric])
  have b: "\<not> sublist ''._sub.'' (GetFullType ''_matterc'' kDnssdProtocolUdp)"
    by (simp add: first_occurrence_None_iff [symmetric] GetFullType_def kProtocolUdp_def)
  have c: "GetFullType ''_L840._sub'' kDnssdProtocolUdp = ''_L840'' @ ''._sub.'' @ ''_udp''"
    by (simp add: GetFullType_def kProtocolUdp_def)
  have d: "GetFullType ''_L840._sub._matterc'' kDnssdProtocolUdp =
      ''_L840'' @ ''._sub.'' @ ''_matterc._udp''"
    by (simp add: GetFullType_def kProtocolUdp_def)
  from a c GetFullTypeWithSubTypes_reorders
    [of "''_L840._sub''" kDnssdProtocolUdp "''_L840''" "''_udp''"]
  have one: "GetFullTypeWithSubTypes ''_L840._sub'' kDnssdProtocolUdp = ''_udp,_L840''"
    by simp
  from a d GetFullTypeWithSubTypes_reorders
    [of "''_L840._sub._matterc''" kDnssdProtocolUdp "''_L840''" "''_matterc._udp''"]
  have two: "GetFullTypeWithSubTypes ''_L840._sub._matterc'' kDnssdProtocolUdp =
      ''_matterc._udp,_L840''"
    by simp
  from b GetFullTypeWithSubTypes_reorders
    [of "''_matterc''" kDnssdProtocolUdp "''_L840''" "''_udp''"]
  have three: "GetFullTypeWithSubTypes ''_matterc'' kDnssdProtocolUdp = ''_matterc._udp''"
    by (simp add: GetFullType_def kProtocolUdp_def)
  from a b c d one two three show ?thesis by simp
qed

text \<open>
  C6, as the claim states it, fails: the suffix is tested with \<open>strstr\<close>, so a suffix that
  only begins with \<open>._tcp\<close> or \<open>._udp\<close> is accepted. \<open>_matter._tcpx\<close> decodes to
  \<open>_matter\<close> and tcp.
\<close>

theorem extractProtocol_accepts_longer_suffix_counterexample:
  "extractProtocol 16 ''_matter._tcpx'' ('''', kDnssdProtocolUnknown) =
     (CHIP_NO_ERROR, ''_matter'', kDnssdProtocolTcp) \<and>
   drop 7 ''_matter._tcpx'' \<noteq> ''._tcp'' \<and> drop 7 ''_matter._tcpx'' \<noteq> ''._udp''"
  by (simp add: extractProtocol_def strstr_def)

text \<open>
  C6, amended. \<open>extractProtocol\<close> returns \<open>CHIP_NO_ERROR\<close> or
  \<open>CHIP_ERROR_INVALID_ARGUMENT\<close>. It succeeds with \<open>base\<close> and \<open>protocol\<close> exactly when the
  input is \<open>base\<close>, a dot, and a rest without dots that begins with \<open>_tcp\<close> (protocol tcp)
  or \<open>_udp\<close> (protocol udp), and \<open>base\<close> fits the output array with its terminator. Every
  other input fails with \<open>CHIP_ERROR_INVALID_ARGUMENT\<close>: among them \<open>_matter._xyz\<close> and
  \<open>_matter\<close>, for every array size.
\<close>

theorem extractProtocol_characterisation:
  "(fst (extractProtocol N wireType out) = CHIP_NO_ERROR \<or>
    fst (extractProtocol N wireType out) = CHIP_ERROR_INVALID_ARGUMENT) \<and>
   (extractProtocol N wireType out = (CHIP_NO_ERROR, base, protocol) \<longleftrightarrow>
      (\<exists>rest. wireType = base @ CHR ''.'' # rest \<and> CHR ''.'' \<notin> set rest \<and>
         length base + 1 \<le> N \<and>
         (prefix ''_tcp'' rest \<and> protocol = kDnssdProtocolTcp \<or>
          prefix ''_udp'' rest \<and> protocol = kDnssdProtocolUdp))) \<and>
   fst (extractProtocol N ''_matter._xyz'' out) = CHIP_ERROR_INVALID_ARGUMENT \<and>
   fst (extractProtocol N ''_matter'' out) = CHIP_ERROR_INVALID_ARGUMENT"
proof (intro conjI)
  show "fst (extractProtocol N wireType out) = CHIP_NO_ERROR \<or>
    fst (extractProtocol N wireType out) = CHIP_ERROR_INVALID_ARGUMENT"
    by (simp add: extractProtocol_def Let_def split: option.splits)
next
  have excl: "\<not> (prefix ''_tcp'' rest \<and> prefix ''_udp'' rest)" for rest
    by (auto simp: prefix_def)
  show "extractProtocol N wireType out = (CHIP_NO_ERROR, base, protocol) \<longleftrightarrow>
      (\<exists>rest. wireType = base @ CHR ''.'' # rest \<and> CHR ''.'' \<notin> set rest \<and>
         length base + 1 \<le> N \<and>
         (prefix ''_tcp'' rest \<and> protocol = kDnssdProtocolTcp \<or>
          prefix ''_udp'' rest \<and> protocol = kDnssdProtocolUdp))" (is "?L \<longleftrightarrow> ?R")
  proof
    assume L: ?L
    then obtain i where i: "strrchr wireType CHR ''.'' = Some i"
      by (auto simp: extractProtocol_def split: option.splits)
    define b where "b = take i wireType"
    define r where "r = drop (Suc i) wireType"
    from strrchr_Some [OF _ i]
    have split: "wireType = b @ CHR ''.'' # r" and nodot: "CHR ''.'' \<notin> set r"
      by (simp_all add: b_def r_def)
    from L have "extractProtocol N (b @ CHR ''.'' # r) out = (CHIP_NO_ERROR, base, protocol)"
      by (simp only: split)
    then have "b = base" "length base + 1 \<le> N"
      "prefix ''_tcp'' r \<and> protocol = kDnssdProtocolTcp \<or>
       prefix ''_udp'' r \<and> protocol = kDnssdProtocolUdp"
      unfolding extractProtocol_after_dot [OF nodot]
      by (simp_all split: if_splits)
    with split nodot show ?R by blast
  next
    assume ?R
    then obtain rest where r: "wireType = base @ CHR ''.'' # rest" "CHR ''.'' \<notin> set rest"
      "length base + 1 \<le> N"
      "prefix ''_tcp'' rest \<and> protocol = kDnssdProtocolTcp \<or>
       prefix ''_udp'' rest \<and> protocol = kDnssdProtocolUdp"
      by blast
    from r(3,4) excl [of rest] show ?L
      unfolding r(1) extractProtocol_after_dot [OF r(2)] by auto
  qed
next
  show "fst (extractProtocol N ''_matter._xyz'' out) = CHIP_ERROR_INVALID_ARGUMENT"
    by (simp add: extractProtocol_def strstr_def)
next
  show "fst (extractProtocol N ''_matter'' out) = CHIP_ERROR_INVALID_ARGUMENT"
    by (simp add: extractProtocol_def)
qed

subsection \<open>Traces of the primitives\<close>

lemma new_events_append: "trace w' = trace w @ evs \<Longrightarrow> new_events w w' = evs"
  by (simp add: new_events_def)

lemma new_events_self [simp]: "new_events w w = []"
  by (simp add: new_events_def)

lemma allocs_append [simp]: "allocs (xs @ ys) = allocs xs @ allocs ys"
  by (induction xs rule: allocs.induct) simp_all

lemma frees_append [simp]: "frees (xs @ ys) = frees xs @ frees ys"
  by (induction xs rule: frees.induct) simp_all

lemma failed_allocs_append [simp]: "failed_allocs (xs @ ys) = failed_allocs xs @ failed_allocs ys"
  by (induction xs rule: failed_allocs.induct) simp_all

lemma backend_calls_append [simp]: "backend_calls (xs @ ys) = backend_calls xs @ backend_calls ys"
  by (induction xs rule: backend_calls.induct) simp_all

lemma callbacks_append [simp]: "callbacks (xs @ ys) = callbacks xs @ callbacks ys"
  by (simp add: callbacks_def)

lemma emit_simps [simp]:
  "trace (emit e w) = trace w @ [e]"
  "next_addr (emit e w) = next_addr w"
  "alloc_ok (emit e w) = alloc_ok w"
  "stack_locked (emit e w) = stack_locked w"
  "sessions (emit e w) = sessions w"
  by (simp_all add: emit_def)

lemma nothrow_new_None:
  assumes "nothrow_new k w = (None, w')"
  shows "trace w' = trace w @ [EvAllocFailed k]" "next_addr w' = next_addr w"
    "stack_locked w' = stack_locked w" "sessions w' = sessions w"
  using assms by (cases "alloc_ok w"; auto simp: nothrow_new_def split: bool.splits list.splits)+

lemma nothrow_new_Some:
  assumes "nothrow_new k w = (Some a, w')"
  shows "trace w' = trace w @ [EvAlloc k a]" "a = next_addr w" "next_addr w' = Suc a"
    "stack_locked w' = stack_locked w" "sessions w' = sessions w"
  using assms by (cases "alloc_ok w"; auto simp: nothrow_new_def split: bool.splits list.splits)+

lemma resolve_dispatch_trace:
  "trace (resolve_dispatch cb ctx err service a w) =
     trace w @ [EvLock, EvResolveCallback cb ctx service (case a of None \<Rightarrow> [] | Some x \<Rightarrow> [x]) err,
       EvUnlock]"
  by (simp add: resolve_dispatch_def LockChipStack_def UnlockChipStack_def Let_def)

lemma browse_dispatch_trace:
  "trace (browse_dispatch cb ctx err service n w) =
     trace w @ [EvLock, EvBrowseCallback cb ctx service n True err, EvUnlock]"
  by (simp add: browse_dispatch_def LockChipStack_def UnlockChipStack_def Let_def)

lemma delete_ptr_trace:
  "trace (delete_ptr p w) = trace w @ (case p of None \<Rightarrow> [] | Some (a, _) \<Rightarrow> [EvFree a])"
  by (simp add: delete_ptr_def delete_def split: option.splits)

lemma release_entries_trace:
  "trace (release_entries es w) =
     trace w @ concat (map (\<lambda>e. (case mKey e of None \<Rightarrow> [] | Some (a, _) \<Rightarrow> [EvFree a]) @
                              (case mData e of None \<Rightarrow> [] | Some (a, _) \<Rightarrow> [EvFree a])) es)"
  by (induction es arbitrary: w) (simp_all add: delete_ptr_trace)

subsection \<open>HandleResolve: the two ways through\<close>

lemma HandleResolve_invalid:
  assumes "callbackHandle r \<noteq> 0" "\<not> resolve_valid P r"
  shows "\<exists>err. err \<noteq> CHIP_NO_ERROR \<and>
    HandleResolve P r w = resolve_dispatch (callbackHandle r) (contextHandle r) err None None w"
proof (cases "address r")
  case None
  with assms(1) show ?thesis by (auto simp: HandleResolve_def)
next
  case (Some a)
  show ?thesis
  proof (cases "FromString P a")
    case None
    with Some assms(1) show ?thesis by (auto simp: HandleResolve_def Let_def)
  next
    case (Some x)
    obtain err n p where e: "extractProtocol (sizeof_mType P) (serviceType r)
        ([], kDnssdProtocolUdp) = (err, n, p)"
      by (cases "extractProtocol (sizeof_mType P) (serviceType r) ([], kDnssdProtocolUdp)")
    with \<open>address r = Some a\<close> Some assms show ?thesis
      by (cases x) (auto simp: HandleResolve_def Let_def resolve_valid_def zero_service_def)
  qed
qed

lemma HandleResolve_valid:
  assumes "resolve_valid P r"
  shows "\<exists>S ip. mTextEntries S = None \<and> mTextEntrySize S = 0 \<and>
    HandleResolve P r w =
      (case (case textEntries r of None \<Rightarrow> (S, w) | Some txt \<Rightarrow> build_text_entries txt S w) of
         (service, w') \<Rightarrow>
           release_text_entries service
             (resolve_dispatch (callbackHandle r) (contextHandle r) CHIP_NO_ERROR
                (Some service) (Some ip) w'))"
proof -
  from assms obtain a x where a: "address r = Some a" "FromString P a = Some x"
    by (auto simp: resolve_valid_def split: option.splits)
  obtain ip iface where x: "x = (ip, iface)" by (cases x)
  obtain err n p where e: "extractProtocol (sizeof_mType P) (serviceType r)
      ([], kDnssdProtocolUdp) = (err, n, p)"
    by (cases "extractProtocol (sizeof_mType P) (serviceType r) ([], kDnssdProtocolUdp)")
  with assms have err: "err = CHIP_NO_ERROR" by (simp add: resolve_valid_def)
  define S where "S = zero_service
     \<lparr>mName := CopyString P (sizeof_mName P) (instanceName r),
      mHostName := CopyString P (sizeof_mHostName P) (hostName r),
      mType := n, mProtocol := p, mPort := ucast (port r), mInterface := iface,
      mTextEntrySize := 0, mTextEntries := None\<rparr>"
  have "mTextEntries S = None" "mTextEntrySize S = 0" by (simp_all add: S_def)
  moreover have "HandleResolve P r w =
      (case (case textEntries r of None \<Rightarrow> (S, w) | Some txt \<Rightarrow> build_text_entries txt S w) of
         (service, w') \<Rightarrow>
           release_text_entries service
             (resolve_dispatch (callbackHandle r) (contextHandle r) CHIP_NO_ERROR
                (Some service) (Some ip) w'))"
    unfolding S_def using assms a x e err
    by (cases "textEntries r")
      (simp_all add: HandleResolve_def Let_def resolve_valid_def zero_service_def)
  ultimately show ?thesis by blast
qed

subsection \<open>What the TXT loop and the exit section add to the trace\<close>

lemma strdup_shape:
  assumes "strdup key w = (kp, w1)"
  shows "\<exists>e. trace w1 = trace w @ [e] \<and>
    (e = EvAllocFailed KeyBuffer \<and> kp = None \<or>
     e = EvAlloc KeyBuffer (next_addr w) \<and> kp = Some (next_addr w, key))"
proof -
  obtain a where n: "nothrow_new KeyBuffer w = (a, w1)" and kp: "kp = map_option (\<lambda>a. (a, key)) a"
    using assms by (auto simp: strdup_def split: prod.splits)
  show ?thesis
  proof (cases a)
    case None
    with n kp nothrow_new_None(1) [of KeyBuffer w w1] show ?thesis by simp
  next
    case (Some x)
    with n kp nothrow_new_Some(1,2) [of KeyBuffer w x w1] show ?thesis by simp
  qed
qed

lemma set_entry_at:
  assumes "mTextEntries service = Some (ea, done @ z # rest)"
  shows "set_entry (length done) f service =
    service\<lparr>mTextEntries := Some (ea, done @ f z # rest)\<rparr>"
  using assms by (simp add: set_entry_def)

lemma fill_entry_round:
  assumes arr: "mTextEntries service = Some (ea, done @ zero_entry # rest)"
      and run: "fill_entry txt (length done) key service w = (ok, service', w')"
  shows "\<exists>e evs. mTextEntries service' = Some (ea, done @ e # rest) \<and>
     mTextEntrySize service' = mTextEntrySize service \<and>
     trace w' = trace w @ evs \<and> callbacks evs = [] \<and> frees evs = [] \<and>
     EntryList \<notin> set (failed_allocs evs) \<and>
     (ok \<longleftrightarrow> DataBuffer \<notin> set (failed_allocs evs)) \<and>
     (\<not> ok \<longrightarrow> getTextEntryData txt key \<noteq> None \<and> mData e = None)"
proof -
  obtain kp w1 where s: "strdup key w = (kp, w1)" by (cases "strdup key w")
  from strdup_shape [OF s] obtain e1 where e1: "trace w1 = trace w @ [e1]"
    "e1 = EvAllocFailed KeyBuffer \<or> (\<exists>a. e1 = EvAlloc KeyBuffer a)" by blast
  define s1 where "s1 = service\<lparr>mTextEntries := Some (ea, done @ zero_entry\<lparr>mKey := kp\<rparr> # rest)\<rparr>"
  have s1: "set_entry (length done) (\<lambda>e. e\<lparr>mKey := kp\<rparr>) service = s1"
    by (simp add: set_entry_at [OF arr] s1_def)
  have arr1: "mTextEntries s1 = Some (ea, done @ zero_entry\<lparr>mKey := kp\<rparr> # rest)"
    by (simp add: s1_def)
  show ?thesis
  proof (cases "getTextEntryData txt key")
    case None
    with run s s1 have r: "ok" "w' = w1"
      "service' = set_entry (length done) (\<lambda>e. e\<lparr>mDataSize := 0, mData := None\<rparr>) s1"
      by (simp_all add: fill_entry_def)
    from r(3) have "mTextEntries service' =
        Some (ea, done @ zero_entry\<lparr>mKey := kp, mDataSize := 0, mData := None\<rparr> # rest)"
      "mTextEntrySize service' = mTextEntrySize service"
      by (simp_all add: set_entry_at [OF arr1]) (simp add: s1_def)
    with r(1,2) e1 show ?thesis by (auto simp: callbacks_def)
  next
    case (Some datas)
    obtain d w2 where n: "nothrow_new DataBuffer w1 = (d, w2)" by (cases "nothrow_new DataBuffer w1")
    show ?thesis
    proof (cases d)
      case None
      with run s s1 Some n have r: "\<not> ok" "w' = w2" "service' = s1"
        by (simp_all add: fill_entry_def)
      from n None have t2: "trace w2 = trace w1 @ [EvAllocFailed DataBuffer]"
        by (simp add: nothrow_new_None)
      from r(3) have "mTextEntries service' = Some (ea, done @ zero_entry\<lparr>mKey := kp\<rparr> # rest)"
        "mTextEntrySize service' = mTextEntrySize service"
        "mData (zero_entry\<lparr>mKey := kp\<rparr>) = None"
        by (simp_all add: s1_def zero_entry_def)
      with r(1,2) e1 t2 Some show ?thesis by (auto simp: callbacks_def)
    next
      case (Some a)
      with run s s1 \<open>getTextEntryData txt key = Some datas\<close> n have r: "ok" "w' = w2"
        "service' = set_entry (length done)
           (\<lambda>e. e\<lparr>mDataSize := length datas, mData := Some (a, datas)\<rparr>) s1"
        by (simp_all add: fill_entry_def)
      from n Some have t2: "trace w2 = trace w1 @ [EvAlloc DataBuffer a]"
        by (simp add: nothrow_new_Some)
      from r(3) have "mTextEntries service' =
          Some (ea, done @ zero_entry\<lparr>mKey := kp, mDataSize := length datas,
            mData := Some (a, datas)\<rparr> # rest)"
        "mTextEntrySize service' = mTextEntrySize service"
        by (simp_all add: set_entry_at [OF arr1]) (simp add: s1_def)
      with r(1,2) e1 t2 show ?thesis by (auto simp: callbacks_def)
    qed
  qed
qed

lemma fill_entries_loop:
  assumes "mTextEntries service = Some (ea, done @ replicate (length keys) zero_entry)"
      and "fill_entries txt sz (length done) keys service w = (service', w')"
  shows "\<exists>new evs. mTextEntries service' = Some (ea, done @ new) \<and> length new = length keys \<and>
     trace w' = trace w @ evs \<and> callbacks evs = [] \<and> frees evs = [] \<and>
     EntryList \<notin> set (failed_allocs evs) \<and>
     (DataBuffer \<in> set (failed_allocs evs) \<longrightarrow>
        (\<exists>k<length keys. getTextEntryData txt (keys ! k) \<noteq> None \<and> mData (new ! k) = None \<and>
           drop (Suc k) new = replicate (length keys - Suc k) zero_entry \<and>
           mTextEntrySize service' = (if k = 0 then mTextEntrySize service else sz)))"
  using assms
proof (induction keys arbitrary: "done" service w)
  case Nil
  then show ?case by (simp add: callbacks_def)
next
  case (Cons key keys)
  obtain ok s1 w1 where round: "fill_entry txt (length done) key service w = (ok, s1, w1)"
    by (cases "fill_entry txt (length done) key service w")
  from Cons.prems(1) have arr: "mTextEntries service =
      Some (ea, done @ zero_entry # replicate (length keys) zero_entry)" by simp
  from fill_entry_round [OF arr round] obtain e evs1 where r:
    "mTextEntries s1 = Some (ea, done @ e # replicate (length keys) zero_entry)"
    "mTextEntrySize s1 = mTextEntrySize service"
    "trace w1 = trace w @ evs1" "callbacks evs1 = []" "frees evs1 = []"
    "EntryList \<notin> set (failed_allocs evs1)"
    "ok \<longleftrightarrow> DataBuffer \<notin> set (failed_allocs evs1)"
    "\<not> ok \<longrightarrow> getTextEntryData txt key \<noteq> None \<and> mData e = None"
    by blast
  show ?case
  proof (cases ok)
    case False
    with Cons.prems(2) round have res: "service' = s1" "w' = w1" by simp_all
    have "\<exists>k<length (key # keys). getTextEntryData txt ((key # keys) ! k) \<noteq> None \<and>
        mData ((e # replicate (length keys) zero_entry) ! k) = None \<and>
        drop (Suc k) (e # replicate (length keys) zero_entry) =
          replicate (length (key # keys) - Suc k) zero_entry \<and>
        mTextEntrySize service' = (if k = 0 then mTextEntrySize service else sz)"
      using False r(2,8) res by (intro exI [of _ 0]) simp
    with r res show ?thesis
      by (intro exI [of _ "e # replicate (length keys) zero_entry"] exI [of _ evs1]) simp
  next
    case True
    define s2 where "s2 = s1\<lparr>mTextEntrySize := sz\<rparr>"
    from True Cons.prems(2) round
    have rec: "fill_entries txt sz (length (done @ [e])) keys s2 w1 = (service', w')"
      by (simp add: s2_def)
    have arr2: "mTextEntries s2 = Some (ea, (done @ [e]) @ replicate (length keys) zero_entry)"
      using r(1) by (simp add: s2_def)
    from Cons.IH [OF arr2 rec] obtain new evs where ih:
      "mTextEntries service' = Some (ea, (done @ [e]) @ new)" "length new = length keys"
      "trace w' = trace w1 @ evs" "callbacks evs = []" "frees evs = []"
      "EntryList \<notin> set (failed_allocs evs)"
      "DataBuffer \<in> set (failed_allocs evs) \<longrightarrow>
        (\<exists>k<length keys. getTextEntryData txt (keys ! k) \<noteq> None \<and> mData (new ! k) = None \<and>
           drop (Suc k) new = replicate (length keys - Suc k) zero_entry \<and>
           mTextEntrySize service' = (if k = 0 then mTextEntrySize s2 else sz))"
      by blast
    have cut: "\<exists>k<length (key # keys). getTextEntryData txt ((key # keys) ! k) \<noteq> None \<and>
        mData ((e # new) ! k) = None \<and>
        drop (Suc k) (e # new) = replicate (length (key # keys) - Suc k) zero_entry \<and>
        mTextEntrySize service' = (if k = 0 then mTextEntrySize service else sz)"
      if "DataBuffer \<in> set (failed_allocs (evs1 @ evs))"
    proof -
      from that True r(7) have "DataBuffer \<in> set (failed_allocs evs)" by simp
      with ih(7) obtain k where k: "k < length keys" "getTextEntryData txt (keys ! k) \<noteq> None"
        "mData (new ! k) = None" "drop (Suc k) new = replicate (length keys - Suc k) zero_entry"
        "mTextEntrySize service' = (if k = 0 then mTextEntrySize s2 else sz)" by blast
      from k(5) have "mTextEntrySize service' = sz" by (simp add: s2_def)
      with k(1-4) show ?thesis by (intro exI [of _ "Suc k"]) simp
    qed
    from ih(1-6) r(3-6) cut show ?thesis
      by (intro exI [of _ "e # new"] exI [of _ "evs1 @ evs"]) simp
  qed
qed

lemma release_text_entries_trace:
  "\<exists>evs. trace (release_text_entries service w) = trace w @ evs \<and> callbacks evs = [] \<and>
     allocs evs = [] \<and> failed_allocs evs = []"
proof -
  define fe :: "TextEntry \<Rightarrow> event list" where "fe = (\<lambda>e. (case mKey e of None \<Rightarrow> [] | Some (a, _) \<Rightarrow> [EvFree a]) @
      (case mData e of None \<Rightarrow> [] | Some (a, _) \<Rightarrow> [EvFree a]))"
  have quiet: "callbacks (concat (map fe es)) = [] \<and> allocs (concat (map fe es)) = [] \<and>
      failed_allocs (concat (map fe es)) = []" for es
    by (induction es) (auto simp: fe_def callbacks_def split: option.splits)
  have t: "trace (release_entries es w) = trace w @ concat (map fe es)" for es w
    unfolding fe_def by (rule release_entries_trace)
  show ?thesis
  proof (cases "mTextEntries service")
    case None
    then show ?thesis by (simp add: release_text_entries_def callbacks_def)
  next
    case (Some p)
    obtain ea es where p: "p = (ea, es)" by (cases p)
    have "trace (release_text_entries service w) =
        trace w @ (concat (map fe (take (mTextEntrySize service) es)) @ [EvFree ea])"
      using Some p by (simp add: release_text_entries_def delete_def t)
    moreover note quiet [of "take (mTextEntrySize service) es"]
    ultimately show ?thesis
      by (intro exI [of _ "concat (map fe (take (mTextEntrySize service) es)) @ [EvFree ea]"])
        (simp add: callbacks_def)
  qed
qed

lemma build_text_entries_trace:
  assumes "build_text_entries txt S w = (service, w')" "mTextEntrySize S = 0"
    "mTextEntries S = None"
  shows "\<exists>evs. trace w' = trace w @ evs \<and> callbacks evs = [] \<and> frees evs = [] \<and>
     (EntryList \<in> set (failed_allocs evs) \<or> DataBuffer \<in> set (failed_allocs evs) \<longrightarrow>
        (visible_text_entries service = [] \<or>
         length (visible_text_entries service) = length (getTextEntryKeys txt) \<and>
         (\<exists>k. 0 < k \<and> k < length (getTextEntryKeys txt) \<and>
            getTextEntryData txt (getTextEntryKeys txt ! k) \<noteq> None \<and>
            mData (visible_text_entries service ! k) = None \<and>
            drop (Suc k) (visible_text_entries service) =
              replicate (length (getTextEntryKeys txt) - Suc k) zero_entry)))"
proof -
  define keys where "keys = getTextEntryKeys txt"
  obtain a w1 where n: "nothrow_new EntryList w = (a, w1)" by (cases "nothrow_new EntryList w")
  show ?thesis
  proof (cases a)
    case None
    with assms(1) n have "service = S" "w' = w1" by (simp_all add: build_text_entries_def)
    moreover from n None have "trace w1 = trace w @ [EvAllocFailed EntryList]"
      by (simp add: nothrow_new_None)
    ultimately show ?thesis using assms(3)
      by (intro exI [of _ "[EvAllocFailed EntryList]"])
        (simp add: callbacks_def visible_text_entries_def)
  next
    case (Some ea)
    define S1 where "S1 = S\<lparr>mTextEntries := Some (ea, replicate (length keys) zero_entry)\<rparr>"
    from assms(1) n Some
    have run: "fill_entries txt (length keys) (length ([]::TextEntry list)) keys S1 w1 = (service, w')"
      by (simp add: build_text_entries_def Let_def keys_def S1_def)
    have arr: "mTextEntries S1 = Some (ea, [] @ replicate (length keys) zero_entry)"
      by (simp add: S1_def)
    from n Some have t1: "trace w1 = trace w @ [EvAlloc EntryList ea]"
      by (simp add: nothrow_new_Some)
    from fill_entries_loop [OF arr run] obtain new evs where f:
      "mTextEntries service = Some (ea, new)" "length new = length keys"
      "trace w' = trace w1 @ evs" "callbacks evs = []" "frees evs = []"
      "EntryList \<notin> set (failed_allocs evs)"
      "DataBuffer \<in> set (failed_allocs evs) \<longrightarrow>
        (\<exists>k<length keys. getTextEntryData txt (keys ! k) \<noteq> None \<and> mData (new ! k) = None \<and>
           drop (Suc k) new = replicate (length keys - Suc k) zero_entry \<and>
           mTextEntrySize service = (if k = 0 then mTextEntrySize S1 else length keys))"
      by auto
    have cut: "(visible_text_entries service = [] \<or>
                length (visible_text_entries service) = length (getTextEntryKeys txt) \<and>
                (\<exists>k. 0 < k \<and> k < length (getTextEntryKeys txt) \<and>
                   getTextEntryData txt (getTextEntryKeys txt ! k) \<noteq> None \<and>
                   mData (visible_text_entries service ! k) = None \<and>
                   drop (Suc k) (visible_text_entries service) =
                     replicate (length (getTextEntryKeys txt) - Suc k) zero_entry))"
      if "DataBuffer \<in> set (failed_allocs evs)"
    proof -
      from that f(7) obtain k where k: "k < length keys"
        "getTextEntryData txt (keys ! k) \<noteq> None" "mData (new ! k) = None"
        "drop (Suc k) new = replicate (length keys - Suc k) zero_entry"
        "mTextEntrySize service = (if k = 0 then mTextEntrySize S1 else length keys)" by blast
      show ?thesis
      proof (cases "k = 0")
        case True
        with k(5) assms(2) have "mTextEntrySize service = 0" by (simp add: S1_def)
        with f(1) show ?thesis by (simp add: visible_text_entries_def)
      next
        case False
        with k(5) have "mTextEntrySize service = length keys" by simp
        with f(1,2) have v: "visible_text_entries service = new"
          by (simp add: visible_text_entries_def)
        from k(1-4) f(2) False have "length new = length (getTextEntryKeys txt) \<and>
            (\<exists>k. 0 < k \<and> k < length (getTextEntryKeys txt) \<and>
               getTextEntryData txt (getTextEntryKeys txt ! k) \<noteq> None \<and>
               mData (new ! k) = None \<and>
               drop (Suc k) new = replicate (length (getTextEntryKeys txt) - Suc k) zero_entry)"
          unfolding keys_def by (intro conjI exI [of _ k]) simp_all
        then show ?thesis unfolding v by (rule disjI2)
      qed
    qed
    from f(3-6) t1 cut show ?thesis
      by (intro exI [of _ "EvAlloc EntryList ea # evs"]) (simp add: callbacks_def)
  qed
qed

lemma HandleResolve_invalid_trace:
  assumes "callbackHandle r \<noteq> 0" "\<not> resolve_valid P r"
  shows "\<exists>err. err \<noteq> CHIP_NO_ERROR \<and>
    new_events w (HandleResolve P r w) =
      [EvLock, EvResolveCallback (callbackHandle r) (contextHandle r) None [] err, EvUnlock]"
proof -
  from HandleResolve_invalid [OF assms, of w] obtain err where e: "err \<noteq> CHIP_NO_ERROR"
    "HandleResolve P r w = resolve_dispatch (callbackHandle r) (contextHandle r) err None None w"
    by blast
  have "trace (HandleResolve P r w) =
      trace w @ [EvLock, EvResolveCallback (callbackHandle r) (contextHandle r) None [] err, EvUnlock]"
    unfolding e(2) by (simp add: resolve_dispatch_trace)
  from new_events_append [OF this] e(1) show ?thesis by blast
qed

lemma HandleResolve_valid_trace:
  assumes "resolve_valid P r"
  shows "\<exists>service ip evs1 evs3.
    new_events w (HandleResolve P r w) =
      evs1 @ [EvLock, EvResolveCallback (callbackHandle r) (contextHandle r) (Some service) [ip]
                CHIP_NO_ERROR, EvUnlock] @ evs3 \<and>
    callbacks evs1 = [] \<and> frees evs1 = [] \<and>
    callbacks evs3 = [] \<and> allocs evs3 = [] \<and> failed_allocs evs3 = [] \<and>
    (textEntries r = None \<longrightarrow> evs1 = []) \<and>
    (\<forall>txt. textEntries r = Some txt \<longrightarrow>
       EntryList \<in> set (failed_allocs evs1) \<or> DataBuffer \<in> set (failed_allocs evs1) \<longrightarrow>
       (visible_text_entries service = [] \<or>
        length (visible_text_entries service) = length (getTextEntryKeys txt) \<and>
        (\<exists>k. 0 < k \<and> k < length (getTextEntryKeys txt) \<and>
           getTextEntryData txt (getTextEntryKeys txt ! k) \<noteq> None \<and>
           mData (visible_text_entries service ! k) = None \<and>
           drop (Suc k) (visible_text_entries service) =
             replicate (length (getTextEntryKeys txt) - Suc k) zero_entry)))"
proof -
  from HandleResolve_valid [OF assms, of w] obtain S ip where S: "mTextEntries S = None"
    "mTextEntrySize S = 0"
    "HandleResolve P r w =
      (case (case textEntries r of None \<Rightarrow> (S, w) | Some txt \<Rightarrow> build_text_entries txt S w) of
         (service, w') \<Rightarrow>
           release_text_entries service
             (resolve_dispatch (callbackHandle r) (contextHandle r) CHIP_NO_ERROR
                (Some service) (Some ip) w'))"
    by blast
  obtain service w1 where b:
    "(case textEntries r of None \<Rightarrow> (S, w) | Some txt \<Rightarrow> build_text_entries txt S w) = (service, w1)"
    by (cases "case textEntries r of None \<Rightarrow> (S, w) | Some t \<Rightarrow> build_text_entries t S w") auto
  have "\<exists>evs1. trace w1 = trace w @ evs1 \<and> callbacks evs1 = [] \<and> frees evs1 = [] \<and>
      (textEntries r = None \<longrightarrow> evs1 = []) \<and>
      (\<forall>txt. textEntries r = Some txt \<longrightarrow>
         EntryList \<in> set (failed_allocs evs1) \<or> DataBuffer \<in> set (failed_allocs evs1) \<longrightarrow>
         (visible_text_entries service = [] \<or>
          length (visible_text_entries service) = length (getTextEntryKeys txt) \<and>
          (\<exists>k. 0 < k \<and> k < length (getTextEntryKeys txt) \<and>
             getTextEntryData txt (getTextEntryKeys txt ! k) \<noteq> None \<and>
             mData (visible_text_entries service ! k) = None \<and>
             drop (Suc k) (visible_text_entries service) =
               replicate (length (getTextEntryKeys txt) - Suc k) zero_entry)))"
  proof (cases "textEntries r")
    case None
    with b show ?thesis by (simp add: callbacks_def)
  next
    case (Some tm)
    with b have "build_text_entries tm S w = (service, w1)" by simp
    from build_text_entries_trace [OF this S(2,1)] obtain evs where ev:
      "trace w1 = trace w @ evs" "callbacks evs = []" "frees evs = []"
      "EntryList \<in> set (failed_allocs evs) \<or> DataBuffer \<in> set (failed_allocs evs) \<longrightarrow>
        (visible_text_entries service = [] \<or>
         length (visible_text_entries service) = length (getTextEntryKeys tm) \<and>
         (\<exists>k. 0 < k \<and> k < length (getTextEntryKeys tm) \<and>
            getTextEntryData tm (getTextEntryKeys tm ! k) \<noteq> None \<and>
            mData (visible_text_entries service ! k) = None \<and>
            drop (Suc k) (visible_text_entries service) =
              replicate (length (getTextEntryKeys tm) - Suc k) zero_entry))" by blast
    show ?thesis
    proof (intro exI [of _ evs] conjI allI impI)
      show "trace w1 = trace w @ evs" by (rule ev(1))
      show "callbacks evs = []" by (rule ev(2))
      show "frees evs = []" by (rule ev(3))
      show "evs = []" if "textEntries r = None" using that Some by simp
      show "(visible_text_entries service = [] \<or>
             length (visible_text_entries service) = length (getTextEntryKeys t) \<and>
             (\<exists>k. 0 < k \<and> k < length (getTextEntryKeys t) \<and>
                getTextEntryData t (getTextEntryKeys t ! k) \<noteq> None \<and>
                mData (visible_text_entries service ! k) = None \<and>
                drop (Suc k) (visible_text_entries service) =
                  replicate (length (getTextEntryKeys t) - Suc k) zero_entry))"
        if "textEntries r = Some t"
          "EntryList \<in> set (failed_allocs evs) \<or> DataBuffer \<in> set (failed_allocs evs)" for t
      proof -
        from that(1) Some have "t = tm" by simp
        with ev(4) that(2) show ?thesis by simp
      qed
    qed
  qed
  then obtain evs1 where e1: "trace w1 = trace w @ evs1" "callbacks evs1 = []" "frees evs1 = []"
    "textEntries r = None \<longrightarrow> evs1 = []"
    "\<forall>txt. textEntries r = Some txt \<longrightarrow>
         EntryList \<in> set (failed_allocs evs1) \<or> DataBuffer \<in> set (failed_allocs evs1) \<longrightarrow>
         (visible_text_entries service = [] \<or>
          length (visible_text_entries service) = length (getTextEntryKeys txt) \<and>
          (\<exists>k. 0 < k \<and> k < length (getTextEntryKeys txt) \<and>
             getTextEntryData txt (getTextEntryKeys txt ! k) \<noteq> None \<and>
             mData (visible_text_entries service ! k) = None \<and>
             drop (Suc k) (visible_text_entries service) =
               replicate (length (getTextEntryKeys txt) - Suc k) zero_entry))"
    by (elim exE conjE) (rule that)
  define w2 where "w2 = resolve_dispatch (callbackHandle r) (contextHandle r) CHIP_NO_ERROR
      (Some service) (Some ip) w1"
  from release_text_entries_trace [of service w2] obtain evs3 where
    e3: "trace (release_text_entries service w2) = trace w2 @ evs3" "callbacks evs3 = []"
      "allocs evs3 = []" "failed_allocs evs3 = []" by blast
  have "HandleResolve P r w = release_text_entries service w2"
    unfolding S(3) b w2_def by simp
  then have "trace (HandleResolve P r w) =
      trace w @ (evs1 @ [EvLock, EvResolveCallback (callbackHandle r) (contextHandle r)
        (Some service) [ip] CHIP_NO_ERROR, EvUnlock] @ evs3)"
    using e3(1) e1(1) by (simp add: w2_def resolve_dispatch_trace)
  from new_events_append [OF this]
  have "new_events w (HandleResolve P r w) =
      evs1 @ [EvLock, EvResolveCallback (callbackHandle r) (contextHandle r)
        (Some service) [ip] CHIP_NO_ERROR, EvUnlock] @ evs3" .
  with e1(2-5) e3(2-4) show ?thesis
    by (intro exI [of _ service] exI [of _ ip] exI [of _ evs1] exI [of _ evs3] conjI)
qed

text \<open>
  C1. A resolve completion with a callback handle other than 0 invokes the callback
  exactly once: among the events that \<open>HandleResolve\<close> adds there is one callback event,
  and it carries either \<open>CHIP_NO_ERROR\<close>, a service record and one address, or an error,
  no record and no address. This holds for every input and every allocator script.
\<close>

theorem HandleResolve_dispatches_once:
  assumes "callbackHandle r \<noteq> 0"
  shows "\<exists>error service addrs.
    callbacks (new_events w (HandleResolve P r w)) =
      [EvResolveCallback (callbackHandle r) (contextHandle r) service addrs error] \<and>
    (error = CHIP_NO_ERROR \<and> service \<noteq> None \<and> length addrs = 1 \<or>
     error \<noteq> CHIP_NO_ERROR \<and> service = None \<and> addrs = [])"
proof (cases "resolve_valid P r")
  case True
  from HandleResolve_valid_trace [OF True, of w] obtain service ip evs1 evs3 where
    "new_events w (HandleResolve P r w) =
      evs1 @ [EvLock, EvResolveCallback (callbackHandle r) (contextHandle r) (Some service) [ip]
                CHIP_NO_ERROR, EvUnlock] @ evs3"
    "callbacks evs1 = []" "callbacks evs3 = []" by (elim exE conjE) (rule that)
  then have "callbacks (new_events w (HandleResolve P r w)) =
      [EvResolveCallback (callbackHandle r) (contextHandle r) (Some service) [ip] CHIP_NO_ERROR]"
    by (simp add: callbacks_def)
  then show ?thesis by auto
next
  case False
  from HandleResolve_invalid_trace [OF assms False, of w] obtain err where
    "err \<noteq> CHIP_NO_ERROR"
    "new_events w (HandleResolve P r w) =
      [EvLock, EvResolveCallback (callbackHandle r) (contextHandle r) None [] err, EvUnlock]"
    by blast
  then show ?thesis by (auto simp: callbacks_def)
qed

theorem HandleResolve_dispatches_once_witness:
  "callbackHandle example_result \<noteq> 0 \<and>
   (\<exists>error service addrs.
      callbacks (new_events (example_world []) (HandleResolve example_platform example_result
        (example_world []))) =
        [EvResolveCallback (callbackHandle example_result) (contextHandle example_result)
           service addrs error] \<and>
      (error = CHIP_NO_ERROR \<and> service \<noteq> None \<and> length addrs = 1 \<or>
       error \<noteq> CHIP_NO_ERROR \<and> service = None \<and> addrs = []))"
proof -
  have h: "callbackHandle example_result \<noteq> 0" by (simp add: example_result_def)
  from h HandleResolve_dispatches_once [OF h, of "example_world []" example_platform]
  show ?thesis by blast
qed

text \<open>
  C10, as the claim states it, fails in one part: the TXT list is not always truncated or
  empty. With three keys that all have data and the data allocation of the second entry
  failing, the callback is invoked once with \<open>CHIP_NO_ERROR\<close> and reads
  \<open>mTextEntrySize = 3\<close>: the first entry complete, the second with its key and no data,
  the third blank with a null key.
\<close>

theorem HandleResolve_failure_keeps_full_length_counterexample:
  "length (getTextEntryKeys example_full_text_map) = 3 \<and>
   failed_allocs (trace (HandleResolve example_platform example_full_result
      (example_world [True, True, True, True, False]))) = [DataBuffer] \<and>
   callbacks (trace (HandleResolve example_platform example_full_result
      (example_world [True, True, True, True, False]))) =
     [EvResolveCallback 7 9
        (Some \<lparr>mName = ''1A2B3C4D5E6F7788'', mHostName = ''AABBCCDDEEFF'', mType = ''_matterc'',
                mProtocol = kDnssdProtocolUdp, mPort = 5540, mInterface = 2,
                mTextEntries =
                  Some (1, [\<lparr>mKey = Some (2, ''D''), mData = Some (3, [0x38, 0x34, 0x30]),
                              mDataSize = 3\<rparr>,
                            \<lparr>mKey = Some (4, ''T''), mData = None, mDataSize = 0\<rparr>,
                            \<lparr>mKey = None, mData = None, mDataSize = 0\<rparr>]),
                mTextEntrySize = 3\<rparr>)
        [1] CHIP_NO_ERROR]"
  by code_simp

text \<open>
  C10, amended. When a resolve result passes the checks, carries a TXT map, and the
  allocation of the entry list or of a data buffer fails, the callback is still invoked
  exactly once, with \<open>CHIP_NO_ERROR\<close> (not \<open>CHIP_ERROR_NO_MEMORY\<close>), a record and the
  address. The TXT entries the callback reads from that record are none at all, or one
  per key of the map: then some entry after the first, whose key has data in the map,
  carries no data, and every entry after it is blank (null key, no data, size 0).
\<close>

theorem HandleResolve_allocation_failure_dispatches_success:
  assumes "resolve_valid P r" and "textEntries r = Some txt"
      and "EntryList \<in> set (failed_allocs (new_events w (HandleResolve P r w))) \<or>
           DataBuffer \<in> set (failed_allocs (new_events w (HandleResolve P r w)))"
  shows "\<exists>service ip.
    callbacks (new_events w (HandleResolve P r w)) =
      [EvResolveCallback (callbackHandle r) (contextHandle r) (Some service) [ip] CHIP_NO_ERROR] \<and>
    (visible_text_entries service = [] \<or>
     length (visible_text_entries service) = length (getTextEntryKeys txt) \<and>
     (\<exists>k. 0 < k \<and> k < length (getTextEntryKeys txt) \<and>
        getTextEntryData txt (getTextEntryKeys txt ! k) \<noteq> None \<and>
        mData (visible_text_entries service ! k) = None \<and>
        drop (Suc k) (visible_text_entries service) =
          replicate (length (getTextEntryKeys txt) - Suc k) zero_entry))"
proof -
  from HandleResolve_valid_trace [OF assms(1), of w] obtain service ip evs1 evs3 where t:
    "new_events w (HandleResolve P r w) =
      evs1 @ [EvLock, EvResolveCallback (callbackHandle r) (contextHandle r) (Some service) [ip]
                CHIP_NO_ERROR, EvUnlock] @ evs3"
    "callbacks evs1 = []" "callbacks evs3 = []" "failed_allocs evs3 = []"
    "\<forall>txt. textEntries r = Some txt \<longrightarrow>
       EntryList \<in> set (failed_allocs evs1) \<or> DataBuffer \<in> set (failed_allocs evs1) \<longrightarrow>
       (visible_text_entries service = [] \<or>
        length (visible_text_entries service) = length (getTextEntryKeys txt) \<and>
        (\<exists>k. 0 < k \<and> k < length (getTextEntryKeys txt) \<and>
           getTextEntryData txt (getTextEntryKeys txt ! k) \<noteq> None \<and>
           mData (visible_text_entries service ! k) = None \<and>
           drop (Suc k) (visible_text_entries service) =
             replicate (length (getTextEntryKeys txt) - Suc k) zero_entry))" by (elim exE conjE) (rule that)
  from assms(3) t(1,4)
  have "EntryList \<in> set (failed_allocs evs1) \<or> DataBuffer \<in> set (failed_allocs evs1)"
    by simp
  with t(5) assms(2) have "(visible_text_entries service = [] \<or>
                            length (visible_text_entries service) = length (getTextEntryKeys txt) \<and>
                            (\<exists>k. 0 < k \<and> k < length (getTextEntryKeys txt) \<and>
                               getTextEntryData txt (getTextEntryKeys txt ! k) \<noteq> None \<and>
                               mData (visible_text_entries service ! k) = None \<and>
                               drop (Suc k) (visible_text_entries service) =
                                 replicate (length (getTextEntryKeys txt) - Suc k) zero_entry))" by blast
  moreover from t(1-3) have "callbacks (new_events w (HandleResolve P r w)) =
      [EvResolveCallback (callbackHandle r) (contextHandle r) (Some service) [ip] CHIP_NO_ERROR]"
    by (simp add: callbacks_def)
  ultimately show ?thesis by blast
qed

theorem HandleResolve_allocation_failure_dispatches_success_witness:
  "resolve_valid example_platform example_full_result \<and>
   textEntries example_full_result = Some example_full_text_map \<and>
   DataBuffer \<in> set (failed_allocs (new_events (example_world [True, True, True, True, False])
     (HandleResolve example_platform example_full_result
        (example_world [True, True, True, True, False])))) \<and>
   (\<exists>service ip.
      callbacks (new_events (example_world [True, True, True, True, False])
        (HandleResolve example_platform example_full_result
           (example_world [True, True, True, True, False]))) =
        [EvResolveCallback (callbackHandle example_full_result)
           (contextHandle example_full_result) (Some service) [ip] CHIP_NO_ERROR] \<and>
      (visible_text_entries service = [] \<or>
       length (visible_text_entries service) = length (getTextEntryKeys example_full_text_map) \<and>
       (\<exists>k. 0 < k \<and> k < length (getTextEntryKeys example_full_text_map) \<and>
          getTextEntryData example_full_text_map (getTextEntryKeys example_full_text_map ! k) \<noteq>
            None \<and>
          mData (visible_text_entries service ! k) = None \<and>
          drop (Suc k) (visible_text_entries service) =
            replicate (length (getTextEntryKeys example_full_text_map) - Suc k) zero_entry)))"
proof -
  have v: "resolve_valid example_platform example_full_result"
    by (simp add: resolve_valid_def example_platform_def example_full_result_def
        example_result_def CanCastTo_uint16_def extractProtocol_def strstr_def)
  have t: "textEntries example_full_result = Some example_full_text_map"
    by (simp add: example_full_result_def)
  have f: "failed_allocs (new_events (example_world [True, True, True, True, False])
     (HandleResolve example_platform example_full_result
        (example_world [True, True, True, True, False]))) = [DataBuffer]"
    by code_simp
  then have d: "EntryList \<in> set (failed_allocs (new_events (example_world [True, True, True, True, False])
     (HandleResolve example_platform example_full_result
        (example_world [True, True, True, True, False])))) \<or>
     DataBuffer \<in> set (failed_allocs (new_events (example_world [True, True, True, True, False])
     (HandleResolve example_platform example_full_result
        (example_world [True, True, True, True, False]))))"
    by simp
  from HandleResolve_allocation_failure_dispatches_success [OF v t d] v t f
  show ?thesis by simp
qed

subsection \<open>HandleBrowse\<close>

lemma browse_entries_overlong:
  assumes "\<exists>name \<in> set names. kInstanceNameMaxLength P < length name"
  shows "browse_entries P jniServiceType i names service = None"
  using assms
proof (induction names arbitrary: i service)
  case Nil
  then show ?case by simp
next
  case (Cons name names)
  show ?case
  proof (cases "kInstanceNameMaxLength P < length name")
    case True
    then show ?thesis by simp
  next
    case False
    with Cons.prems have "\<exists>name \<in> set names. kInstanceNameMaxLength P < length name" by simp
    from Cons.IH [OF this] show ?thesis by (simp add: Let_def split: prod.splits)
  qed
qed

text \<open>
  C7. A browse batch with a callback handle other than 0 that contains an instance name
  longer than \<open>kInstanceNameMaxLength\<close> invokes the callback exactly once, with
  \<open>CHIP_ERROR_INVALID_ARGUMENT\<close>, no service records and count 0, wherever the name stands
  in the batch: the names before it are not delivered.
\<close>

theorem HandleBrowse_aborts_batch:
  assumes "callback \<noteq> 0"
      and "\<exists>name \<in> set instanceNames. kInstanceNameMaxLength P < length name"
  shows "callbacks (new_events w
           (HandleBrowse P uninit instanceNames jniServiceType callback context w)) =
         [EvBrowseCallback callback context None 0 True CHIP_ERROR_INVALID_ARGUMENT]"
proof -
  have "trace (HandleBrowse P uninit instanceNames jniServiceType callback context w) =
      trace w @ [EvAlloc ServiceArray (next_addr w), EvLock,
        EvBrowseCallback callback context None 0 True CHIP_ERROR_INVALID_ARGUMENT, EvUnlock]"
    using assms(1) browse_entries_overlong [OF assms(2)]
    by (simp add: HandleBrowse_def plain_new_def Let_def browse_dispatch_trace)
  from new_events_append [OF this] show ?thesis by (simp add: callbacks_def)
qed

theorem HandleBrowse_aborts_batch_witness:
  "(7 :: handle) \<noteq> 0 \<and>
   kInstanceNameMaxLength example_platform < length (replicate 34 CHR ''x'') \<and>
   callbacks (new_events (example_world [])
      (HandleBrowse example_platform (\<lambda>i. zero_service)
         [''1A2B3C4D5E6F7788'', replicate 34 CHR ''x''] ''_matterc._udp'' 7 9 (example_world []))) =
     [EvBrowseCallback 7 9 None 0 True CHIP_ERROR_INVALID_ARGUMENT]"
proof -
  have a: "(7 :: handle) \<noteq> 0" by simp
  have k: "kInstanceNameMaxLength example_platform < length (replicate 34 CHR ''x'')"
    by (simp add: example_platform_def)
  then have b: "\<exists>name \<in> set [''1A2B3C4D5E6F7788'', replicate 34 CHR ''x''].
      kInstanceNameMaxLength example_platform < length name" by simp
  from HandleBrowse_aborts_batch [OF a b] a k show ?thesis by simp
qed

subsection \<open>Synchronous operations\<close>



text \<open>
  The sibling operations: \<open>ChipDnssdResolve\<close> and \<open>ChipDnssdRemoveServices\<close> call the
  backend with the stack lock released, and report an unbound backend as
  \<open>CHIP_ERROR_INCORRECT_STATE\<close>. \<open>ChipDnssdBrowse\<close> calls it with the lock as the caller
  left it, and reports an unbound browser as \<open>CHIP_ERROR_INVALID_ARGUMENT\<close>.
\<close>

lemma ChipDnssdResolve_releases_lock:
  "\<forall>(c, locked) \<in> set (backend_calls (new_events w
       (snd (ChipDnssdResolve g service callback context throws w)))). \<not> locked"
proof (cases "\<exists>svc. service = Some svc \<and> callback \<noteq> 0 \<and> sResolverObject g \<and> sResolveMethod g \<and>
    sMdnsCallbackObject g")
  case True
  then obtain svc where svc: "service = Some svc" "callback \<noteq> 0" "sResolverObject g"
    "sResolveMethod g" "sMdnsCallbackObject g" by blast
  have "trace (snd (ChipDnssdResolve g service callback context throws w)) =
      trace w @ [EvUnlock, EvBackendCall (BackendResolve (mName svc)
        (GetFullType (mType svc) (mProtocol svc)) callback context) False, EvLock]"
    using svc
    by (simp add: ChipDnssdResolve_def Let_def UnlockChipStack_def LockChipStack_def backend_def)
  from new_events_append [OF this] show ?thesis by simp
next
  case False
  then have "snd (ChipDnssdResolve g service callback context throws w) = w"
    by (auto simp: ChipDnssdResolve_def split: option.splits)
  then show ?thesis by simp
qed

lemma ChipDnssdRemoveServices_releases_lock:
  "\<forall>(c, locked) \<in> set (backend_calls (new_events w
       (snd (ChipDnssdRemoveServices g throws w)))). \<not> locked"
proof (cases "sResolverObject g \<and> sRemoveServicesMethod g")
  case True
  have "trace (snd (ChipDnssdRemoveServices g throws w)) =
      trace w @ [EvUnlock, EvBackendCall BackendRemoveServices False, EvLock]"
    using True
    by (simp add: ChipDnssdRemoveServices_def Let_def UnlockChipStack_def LockChipStack_def
        backend_def)
  from new_events_append [OF this] show ?thesis by simp
next
  case False
  then have "snd (ChipDnssdRemoveServices g throws w) = w"
    by (auto simp: ChipDnssdRemoveServices_def)
  then show ?thesis by simp
qed

lemma ChipDnssdResolve_unbound:
  assumes "callback \<noteq> 0"
      and "\<not> (sResolverObject g \<and> sResolveMethod g) \<or> \<not> sMdnsCallbackObject g"
  shows "ChipDnssdResolve g (Some svc) callback context throws w = (CHIP_ERROR_INCORRECT_STATE, w)"
  using assms by (auto simp: ChipDnssdResolve_def)

lemma ChipDnssdRemoveServices_unbound:
  assumes "\<not> (sResolverObject g \<and> sRemoveServicesMethod g)"
  shows "ChipDnssdRemoveServices g throws w = (CHIP_ERROR_INCORRECT_STATE, w)"
  using assms by (auto simp: ChipDnssdRemoveServices_def)

lemma ChipDnssdBrowse_unbound:
  assumes "callback \<noteq> 0" and "\<not> (sBrowserObject g \<and> sBrowseMethod g)"
  shows "ChipDnssdBrowse g (Some ty) protocol callback context env throws w =
    (CHIP_ERROR_INVALID_ARGUMENT, None, w)"
  using assms by (auto simp: ChipDnssdBrowse_def)

lemma ChipDnssdBrowse_dispatcher_unbound:
  assumes "callback \<noteq> 0" and "sBrowserObject g \<and> sBrowseMethod g" and "\<not> sMdnsCallbackObject g"
  shows "ChipDnssdBrowse g (Some ty) protocol callback context env throws w =
    (CHIP_ERROR_INCORRECT_STATE, None, w)"
  using assms by (auto simp: ChipDnssdBrowse_def)

lemma ChipDnssdBrowse_keeps_lock:
  assumes "callback \<noteq> 0" "sBrowserObject g" "sBrowseMethod g" "sMdnsCallbackObject g" "env"
  shows "backend_calls (new_events w
       (snd (snd (ChipDnssdBrowse g (Some ty) protocol callback context env throws w)))) =
     [(BackendBrowse (GetFullTypeWithSubTypes ty protocol) callback context, stack_locked w)]"
proof -
  define w1 where "w1 = backend (BackendBrowse (GetFullTypeWithSubTypes ty protocol) callback context) w"
  have t1: "trace w1 = trace w @
      [EvBackendCall (BackendBrowse (GetFullTypeWithSubTypes ty protocol) callback context)
         (stack_locked w)]"
    by (simp add: w1_def backend_def)
  obtain a w2 where n: "nothrow_new BrowseContextObject w1 = (a, w2)"
    by (cases "nothrow_new BrowseContextObject w1")
  have "\<exists>e. backend_calls [e] = [] \<and>
      (snd (snd (ChipDnssdBrowse g (Some ty) protocol callback context env throws w)) = w1 \<or>
       trace (snd (snd (ChipDnssdBrowse g (Some ty) protocol callback context env throws w))) =
         trace w1 @ [e])"
  proof (cases throws)
    case True
    with assms show ?thesis
      by (intro exI [of _ EvLock]) (simp add: ChipDnssdBrowse_def Let_def w1_def)
  next
    case False
    show ?thesis
    proof (cases a)
      case None
      with n False assms nothrow_new_None(1) [OF n [unfolded None]] show ?thesis
        by (intro exI [of _ "EvAllocFailed BrowseContextObject"])
          (simp add: ChipDnssdBrowse_def Let_def w1_def)
    next
      case (Some x)
      with n False assms nothrow_new_Some(1) [OF n [unfolded Some]] show ?thesis
        by (intro exI [of _ "EvAlloc BrowseContextObject x"])
          (simp add: ChipDnssdBrowse_def Let_def w1_def)
    qed
  qed
  then obtain e where e: "backend_calls [e] = []"
    "snd (snd (ChipDnssdBrowse g (Some ty) protocol callback context env throws w)) = w1 \<or>
       trace (snd (snd (ChipDnssdBrowse g (Some ty) protocol callback context env throws w))) =
         trace w1 @ [e]" by blast
  from e(2) show ?thesis
  proof
    assume "snd (snd (ChipDnssdBrowse g (Some ty) protocol callback context env throws w)) = w1"
    with new_events_append [OF t1] show ?thesis by simp
  next
    assume "trace (snd (snd (ChipDnssdBrowse g (Some ty) protocol callback context env throws w))) =
         trace w1 @ [e]"
    with t1 have "trace (snd (snd (ChipDnssdBrowse g (Some ty) protocol callback context env throws w))) =
      trace w @ [EvBackendCall (BackendBrowse (GetFullTypeWithSubTypes ty protocol) callback context)
         (stack_locked w), e]" by simp
    from new_events_append [OF this] e(1) show ?thesis by simp
  qed
qed

text \<open>
  C4 at a failing input: called with the stack lock held, \<open>ChipDnssdBrowse\<close> and
  \<open>ChipDnssdStopBrowse\<close> call the backend while the lock is still held.
\<close>

theorem ChipDnssdBrowse_backend_called_with_lock_held:
  "stack_locked example_session_world \<and>
   backend_calls (trace (snd (snd (ChipDnssdBrowse example_globals (Some ''_matterc'')
      kDnssdProtocolUdp 7 9 True False example_session_world)))) =
     [(BackendBrowse ''_matterc._udp'' 7 9, True)] \<and>
   map_option (\<lambda>(err, w'). (err, backend_calls (trace w')))
     (ChipDnssdStopBrowse example_globals 5 True False example_session_world) =
     Some (CHIP_NO_ERROR, [(BackendStopBrowse 7, True)])"
  by (simp add: ChipDnssdBrowse_def ChipDnssdStopBrowse_def example_globals_def
      example_session_world_def GetFullTypeWithSubTypes_def GetFullType_def kProtocolUdp_def
      string_find_def backend_def nothrow_new_def delete_def emit_def Let_def)

text \<open>
  C9 at a failing input: with the browser object or its stop method unbound,
  \<open>ChipDnssdBrowse\<close> and \<open>ChipDnssdStopBrowse\<close> return \<open>CHIP_ERROR_INVALID_ARGUMENT\<close>,
  not \<open>CHIP_ERROR_INCORRECT_STATE\<close> (the world is unchanged).
\<close>

theorem ChipDnssdBrowse_unbound_reports_invalid_argument:
  "ChipDnssdBrowse (example_globals\<lparr>sBrowserObject := False\<rparr>) (Some ''_matterc'')
      kDnssdProtocolUdp 7 9 True False example_session_world =
     (CHIP_ERROR_INVALID_ARGUMENT, None, example_session_world) \<and>
   ChipDnssdStopBrowse (example_globals\<lparr>sStopBrowseMethod := False\<rparr>) 5 True False
      example_session_world = Some (CHIP_ERROR_INVALID_ARGUMENT, example_session_world) \<and>
   CHIP_ERROR_INVALID_ARGUMENT \<noteq> CHIP_ERROR_INCORRECT_STATE"
  by (simp add: ChipDnssdBrowse_def ChipDnssdStopBrowse_def example_globals_def)

text \<open>
  Allocation counting on the example result (three keys, two of them with data). With no
  allocation failure, one list, three keys and two data buffers are obtained before the
  callback and the same six blocks are freed after it. With the last data allocation
  failing, the five blocks obtained are all freed.
\<close>

lemma HandleResolve_example_balanced:
  "allocs (before_callback (trace (HandleResolve example_platform example_result
      (example_world [])))) =
     [(EntryList, 1), (KeyBuffer, 2), (DataBuffer, 3), (KeyBuffer, 4), (KeyBuffer, 5),
      (DataBuffer, 6)] \<and>
   frees (before_callback (trace (HandleResolve example_platform example_result
      (example_world [])))) = [] \<and>
   allocs (after_callback (trace (HandleResolve example_platform example_result
      (example_world [])))) = [] \<and>
   frees (after_callback (trace (HandleResolve example_platform example_result
      (example_world [])))) = [2, 3, 4, 5, 6, 1]"
  by code_simp

lemma HandleResolve_later_data_failure_released:
  "allocs (trace (HandleResolve example_platform example_result
      (example_world [True, True, True, True, True, False]))) =
     [(EntryList, 1), (KeyBuffer, 2), (DataBuffer, 3), (KeyBuffer, 4), (KeyBuffer, 5)] \<and>
   frees (trace (HandleResolve example_platform example_result
      (example_world [True, True, True, True, True, False]))) = [2, 3, 4, 5, 1]"
  by code_simp

text \<open>
  C5 at a failing input: when the data buffer of the first TXT entry fails to allocate,
  the entry list and the first key have been allocated, \<open>mTextEntrySize\<close> is still 0, and
  the exit section frees the entry list only. The key buffer (address 2) is never freed.
\<close>

theorem HandleResolve_first_data_failure_leaks_key:
  "allocs (trace (HandleResolve example_platform example_result
      (example_world [True, True, False]))) = [(EntryList, 1), (KeyBuffer, 2)] \<and>
   failed_allocs (trace (HandleResolve example_platform example_result
      (example_world [True, True, False]))) = [DataBuffer] \<and>
   frees (trace (HandleResolve example_platform example_result
      (example_world [True, True, False]))) = [1]"
  by code_simp

end
